theory Spec2Isabelle
  imports Main "HOL-Library.Sublist" "HOL-Library.Word"
begin

text \<open>
  A model of the author clock, \<open>script.js\<close> with the options of \<open>config.js\<close>: the
  string functions that fit and highlight a quote, the resolution of the time from the
  device clock and the web time API, the lookup of the quote of the minute, the updates of
  the page, the startup and the timers. Definitions come first, in the order of the script's
  dependencies; the properties follow.
\<close>

section \<open>Strings as the script uses them\<close>

text \<open>
  A string of the script is a sequence of UTF-16 code units, and \<open>length\<close>,
  \<open>indexOf\<close>, \<open>lastIndexOf\<close> and \<open>substring\<close> count in code units. \<open>utf16\<close>
  gives the code units of a string literal of the script that is written in ASCII.
  Indices are \<open>int\<close>, because the script computes with possibly negative numbers and uses
  \<open>-1\<close> for "not found".
\<close>

type_synonym codeunit = "16 word"

type_synonym jsstring = "codeunit list"

definition utf16 :: "string \<Rightarrow> jsstring" where
  "utf16 s = map of_char s"

text \<open>
  Two functions of the JavaScript engine that the script relies on are a parameter of the
  model, since their tables belong to the engine and not to the script:
  \<open>String.prototype.toLowerCase\<close>, which follows the Unicode case mappings and may change
  the length of a string (U+0130 becomes the two code units U+0069 U+0307), and the
  canonicalisation of a code unit under the flag \<open>i\<close> of a regular expression without the
  flag \<open>u\<close>, which compares code unit by code unit.
\<close>

record engine =
  toLowerCase :: "jsstring \<Rightarrow> jsstring"
  canonicalize :: "codeunit \<Rightarrow> codeunit"

text \<open>
  \<open>haystack.indexOf(needle)\<close>: the least index at which \<open>needle\<close> occurs, \<open>-1\<close> when it
  occurs nowhere. The empty needle occurs at index 0.
\<close>

fun indexOf :: "jsstring \<Rightarrow> jsstring \<Rightarrow> int" where
  "indexOf [] needle = (if needle = [] then 0 else -1)"
| "indexOf (c # cs) needle =
     (if prefix needle (c # cs) then 0
      else (let r = indexOf cs needle in if r = -1 then -1 else r + 1))"

text \<open>
  \<open>haystack.indexOf(needle, position)\<close>: the search starts at \<open>position\<close>, clamped to
  the string.
\<close>

definition indexOfFrom :: "jsstring \<Rightarrow> jsstring \<Rightarrow> int \<Rightarrow> int" where
  "indexOfFrom haystack needle position =
     (let p = min (max position 0) (int (length haystack));
          r = indexOf (drop (nat p) haystack) needle
      in if r = -1 then -1 else r + p)"

text \<open>
  \<open>haystack.lastIndexOf(needle, position)\<close>: the greatest index not above \<open>position\<close>
  at which \<open>needle\<close> occurs, \<open>-1\<close> when there is none. \<open>lastIndexDown\<close> tries the
  candidate indices \<open>k, k - 1, ..., 0\<close> in this order.
\<close>

fun lastIndexDown :: "jsstring \<Rightarrow> jsstring \<Rightarrow> nat \<Rightarrow> int" where
  "lastIndexDown haystack needle 0 = (if prefix needle haystack then 0 else -1)"
| "lastIndexDown haystack needle (Suc k) =
     (if prefix needle (drop (Suc k) haystack) then int (Suc k)
      else lastIndexDown haystack needle k)"

definition lastIndexOf :: "jsstring \<Rightarrow> jsstring \<Rightarrow> int \<Rightarrow> int" where
  "lastIndexOf haystack needle position =
     lastIndexDown haystack needle (nat (min (max position 0) (int (length haystack))))"

text \<open>
  \<open>s.substring(a, b)\<close>: both arguments are clamped to the string, and they are swapped
  when the first is the greater one.
\<close>

definition substring :: "jsstring \<Rightarrow> int \<Rightarrow> int \<Rightarrow> jsstring" where
  "substring s a b =
     (let len = int (length s);
          a' = min (max a 0) len;
          b' = min (max b 0) len;
          lo = min a' b';
          hi = max a' b'
      in take (nat (hi - lo)) (drop (nat lo) s))"

section \<open>Configuration\<close>

text \<open>
  The options of \<open>config.js\<close> that the modelled functions can read. The module-level
  constant \<open>config\<close> is in scope of every function of \<open>script.js\<close>; the model
  passes it as an explicit first argument.
\<close>

record time_sync =
  useWebTime :: bool
  maxDiscrepancySeconds :: int
  fallbackToSystemTime :: bool

record messages =
  noQuote :: jsstring
  noSource :: jsstring
  timeUnavailable :: jsstring
  weatherUnavailable :: jsstring

record config =
  updateInterval :: int
  weatherUpdateInterval :: int
  fadeOutDuration :: int
  maxQuoteLength :: int
  timeSync :: time_sync
  wakeLockFallbackInterval :: int
  messages :: messages

definition defaultConfig :: config where
  "defaultConfig =
     \<lparr> updateInterval = 60000,
       weatherUpdateInterval = 600000,
       fadeOutDuration = 1000,
       maxQuoteLength = 108,
       timeSync = \<lparr> useWebTime = False, maxDiscrepancySeconds = 30,
                    fallbackToSystemTime = True \<rparr>,
       wakeLockFallbackInterval = 30000,
       messages = \<lparr> noQuote = utf16 ''No quote found for'',
                     noSource = utf16 ''No source available'',
                     timeUnavailable = utf16 ''Time unavailable'',
                     weatherUnavailable = utf16 ''Weather unavailable'' \<rparr> \<rparr>"

section \<open>Fitting a quote to the character budget\<close>

text \<open>
  \<open>updateQuote\<close> fits a quote with \<open>smartTruncateQuote\<close> only;
  \<open>truncateQuoteToThreeLines\<close>, which measures the rendered height, is called nowhere in
  the script and is not modelled.

  The body of \<open>smartTruncateQuote\<close> behind the search for the token is modelled in
  three parts, in the order of the script. \<open>centredWindow\<close> is the arithmetic on
  \<open>startIndex\<close> and \<open>endIndex\<close> ("Calculate ideal window" up to "Ensure we don't
  exceed maxLength"); it depends on the text only through its length \<open>len\<close>.
\<close>

definition centredWindow :: "int \<Rightarrow> int \<Rightarrow> int \<Rightarrow> int \<times> int" where
  "centredWindow len timeIndex timeLength =
     (let maxLength = 120;
          startIndex = max 0 (timeIndex - (maxLength - timeLength) div 2);
          endIndex = min len (startIndex + maxLength);
          (startIndex, endIndex) =
             (if endIndex = len \<and> len > maxLength
              then (max 0 (len - maxLength), len) else (startIndex, endIndex));
          endIndex =
             (if startIndex = 0 \<and> len > maxLength then min len maxLength else endIndex);
          endIndex =
             (if endIndex - startIndex > maxLength then startIndex + maxLength else endIndex)
      in (startIndex, endIndex))"

text \<open>
  "Find word boundaries to avoid cutting words": the start edge moves behind the first
  space at or after it, the end edge moves back onto the last space at or before it, each
  only when that space is fewer than 15 characters away.
\<close>

definition snapStart :: "jsstring \<Rightarrow> int \<Rightarrow> int" where
  "snapStart quoteText startIndex =
     (if startIndex > 0
      then (let spaceIndex = indexOfFrom quoteText (utf16 '' '') startIndex
            in if spaceIndex \<noteq> -1 \<and> spaceIndex < startIndex + 15
               then spaceIndex + 1 else startIndex)
      else startIndex)"

definition snapEnd :: "jsstring \<Rightarrow> int \<Rightarrow> int" where
  "snapEnd quoteText endIndex =
     (if endIndex < int (length quoteText)
      then (let spaceIndex = lastIndexOf quoteText (utf16 '' '') endIndex
            in if spaceIndex \<noteq> -1 \<and> spaceIndex > endIndex - 15
               then spaceIndex else endIndex)
      else endIndex)"

definition truncationWindow :: "jsstring \<Rightarrow> int \<Rightarrow> int \<Rightarrow> int \<times> int" where
  "truncationWindow quoteText timeIndex timeLength =
     (let (startIndex, endIndex) =
            centredWindow (int (length quoteText)) timeIndex timeLength
      in (snapStart quoteText startIndex, snapEnd quoteText endIndex))"

definition smartTruncateQuote :: "engine \<Rightarrow> config \<Rightarrow> jsstring \<Rightarrow> jsstring \<Rightarrow> jsstring" where
  "smartTruncateQuote js cfg quoteText timeString =
     (let maxLength = 120 in
      if int (length quoteText) \<le> maxLength then quoteText
      else
        (let timeIndex = indexOf (toLowerCase js quoteText) (toLowerCase js timeString) in
         if timeIndex = -1 then substring quoteText 0 (maxLength - 3) @ utf16 ''...''
         else
           (let timeLength = int (length timeString);
                (startIndex, endIndex) = truncationWindow quoteText timeIndex timeLength;
                result = substring quoteText startIndex endIndex;
                result = (if startIndex > 0 then utf16 ''...'' @ result else result);
                result = (if endIndex < int (length quoteText)
                          then result @ utf16 ''...'' else result)
            in result)))"

text \<open>
  The words of the claim that the token is never split. The token occurs in the text at
  the position \<open>p\<close> when the \<open>length timeString\<close> code units of the text from \<open>p\<close> on
  are the token up to the case of the letters; \<open>firstOccurrence\<close> is the first such
  position. The token is split when \<open>smartTruncateQuote\<close> has found the token and an
  edge of the window it cuts lies strictly inside that first occurrence. The window is the
  one of the script, which places it by the index it found in the lower-cased text.
\<close>

definition matchesAt :: "engine \<Rightarrow> jsstring \<Rightarrow> jsstring \<Rightarrow> nat \<Rightarrow> bool" where
  "matchesAt js quoteText timeString p =
     (p + length timeString \<le> length quoteText \<and>
      toLowerCase js (take (length timeString) (drop p quoteText)) = toLowerCase js timeString)"

definition firstOccurrence :: "engine \<Rightarrow> jsstring \<Rightarrow> jsstring \<Rightarrow> nat option" where
  "firstOccurrence js quoteText timeString =
     find (matchesAt js quoteText timeString) [0..<Suc (length quoteText)]"

definition tokenSplit :: "engine \<Rightarrow> jsstring \<Rightarrow> jsstring \<Rightarrow> bool" where
  "tokenSplit js quoteText timeString =
     (let timeIndex = indexOf (toLowerCase js quoteText) (toLowerCase js timeString);
          timeLength = int (length timeString);
          (startIndex, endIndex) = truncationWindow quoteText timeIndex timeLength
      in timeIndex \<noteq> -1 \<and>
         (case firstOccurrence js quoteText timeString of
            None \<Rightarrow> False
          | Some p \<Rightarrow>
              (int p < startIndex \<and> startIndex < int p + timeLength) \<or>
              (int p < endIndex \<and> endIndex < int p + timeLength)))"

text \<open>
  Lower-casing works in place on a text and a token when, on the strings over their code
  units, it is the code unit by code unit application of a function \<open>lc\<close> that maps
  nothing but the space to the space. For an engine this holds, for instance, of every text
  and token in Latin-1; it does not hold of a text with U+0130.
\<close>

definition foldsInPlace :: "engine \<Rightarrow> (codeunit \<Rightarrow> codeunit) \<Rightarrow> jsstring \<Rightarrow> jsstring \<Rightarrow> bool" where
  "foldsInPlace js lc quoteText timeString =
     ((\<forall>s. set s \<subseteq> set quoteText \<union> set timeString \<longrightarrow> toLowerCase js s = map lc s) \<and>
      (\<forall>c \<in> set quoteText \<union> set timeString. (lc c = 0x20) = (c = 0x20)))"

section \<open>Highlighting the time token\<close>

text \<open>
  \<open>highlightTimeString\<close> escapes every regular-expression metacharacter of the token,
  so the expression it builds matches the token literally; the flags \<open>gi\<close> make the
  replacement global and case-insensitive: a code unit of the text matches a code unit of
  the token when the engine canonicalises both to the same code unit. \<open>replaceAllCI\<close> is
  that replacement: it scans the text from the left, wraps each match (in the spelling of
  the text) and goes on behind it. The empty token matches the empty string at every
  position, also behind the last code unit.
\<close>

definition strong :: "jsstring \<Rightarrow> jsstring" where
  "strong m = utf16 ''<strong>'' @ m @ utf16 ''</strong>''"

function replaceAllCI :: "engine \<Rightarrow> jsstring \<Rightarrow> jsstring \<Rightarrow> jsstring" where
  "replaceAllCI js needle [] = (if needle = [] then strong [] else [])"
| "replaceAllCI js needle (c # cs) =
     (if needle = [] then strong [] @ c # replaceAllCI js needle cs
      else if prefix (map (canonicalize js) needle) (map (canonicalize js) (c # cs))
      then strong (take (length needle) (c # cs))
           @ replaceAllCI js needle (drop (length needle) (c # cs))
      else c # replaceAllCI js needle cs)"
  by pat_completeness auto
termination
  by (relation "measure (\<lambda>(js, needle, text). length text)") auto

definition highlightTimeString :: "engine \<Rightarrow> jsstring \<Rightarrow> jsstring \<Rightarrow> jsstring" where
  "highlightTimeString js quoteText timeString = replaceAllCI js timeString quoteText"

text \<open>
  The number of matches that the replacement of \<open>highlightTimeString\<close> wraps: the same
  scan as \<open>replaceAllCI\<close>, counting instead of wrapping.
\<close>

function countMatchesCI :: "engine \<Rightarrow> jsstring \<Rightarrow> jsstring \<Rightarrow> nat" where
  "countMatchesCI js needle [] = (if needle = [] then 1 else 0)"
| "countMatchesCI js needle (c # cs) =
     (if needle = [] then 1 + countMatchesCI js needle cs
      else if prefix (map (canonicalize js) needle) (map (canonicalize js) (c # cs))
      then 1 + countMatchesCI js needle (drop (length needle) (c # cs))
      else countMatchesCI js needle cs)"
  by pat_completeness auto
termination
  by (relation "measure (\<lambda>(js, needle, text). length text)") auto

section \<open>The application state and its environment\<close>

text \<open>
  A record of the dataset, as \<open>loadQuotes\<close> stores it in the module variable
  \<open>quotes\<close>, and the value \<open>{hours, minutes, seconds}\<close> that \<open>getCurrentTime\<close>
  returns. The fields of a time come from \<open>getHours\<close>, \<open>getMinutes\<close> and
  \<open>getSeconds\<close> and are natural numbers; the script's arithmetic on them is done in
  \<open>int\<close>.
\<close>

record quote_record =
  time :: jsstring
  quote :: jsstring
  timeString :: jsstring
  title :: jsstring
  author :: jsstring

record resolved_time =
  hours :: nat
  minutes :: nat
  seconds :: nat

datatype error = TimeUnavailable | FetchRejected | HttpError nat | JsonRejected

text \<open>
  The callbacks that the script hands to \<open>setTimeout\<close> and \<open>setInterval\<close>:
  \<open>updateQuote\<close> itself, the arrow function of \<open>setupPreciseMinuteTiming\<close>, the arrow
  function of \<open>updateQuote\<close> (which closes over \<open>matchedQuote\<close>),
  \<open>updateWeatherDisplay\<close>, and the arrow function of \<open>setupFallbackKeepAwake\<close>.
\<close>

datatype task =
    UpdateQuote
  | StartMinuteUpdates
  | RenderQuote "quote_record option"
  | UpdateWeatherDisplay
  | KeepAwake

record timer =
  fireAt :: int
  period :: "int option"
  callback :: task

datatype element = QuoteElement | AuthorElement | QuoteContainer | DatetimeDisplay | WeatherDisplay

datatype dataset_response =
    DatasetFetchRejected
  | DatasetResponse nat "quote_record list option"

text \<open>
  The outcome of a request to the web time API: \<open>fetch\<close> or \<open>response.json()\<close>
  rejects, or there is an answer with its HTTP status and the time of the day that
  \<open>new Date(data.datetime)\<close> gives, \<open>None\<close> when the body carries no date that parses
  (an Invalid Date, whose fields are \<open>NaN\<close>). A body that is the JSON value \<open>null\<close>
  makes the script throw at \<open>data.datetime\<close> and counts as a rejection.
\<close>

datatype web_time_response =
    WebTimeRejected
  | WebTimeAnswer nat "resolved_time option"

text \<open>
  What the program cannot decide: the engine it runs on, the successive readings of the
  device clock, the outcomes of the successive requests to the web time API, the response
  to the dataset request (its status and its JSON body, \<open>None\<close> when the body does not
  parse), the outcomes of the weather requests (temperature and weather code, \<open>None\<close> for
  every failure), and which elements of \<open>config.selectors\<close> the page has.
\<close>

record world =
  runtime :: engine
  systemClock :: "nat \<Rightarrow> resolved_time"
  webTimeResponse :: "nat \<Rightarrow> web_time_response"
  datasetResponse :: dataset_response
  weatherResponse :: "nat \<Rightarrow> (int \<times> nat) option"
  present :: "element \<Rightarrow> bool"

datatype datetime_field = DatetimeInitial | DateAndTime jsstring | DatetimeMessage jsstring

datatype weather_field = WeatherInitial | WeatherReport int nat | WeatherMessage jsstring

datatype author_field = AuthorInitial | Attribution jsstring jsstring | AuthorMessage jsstring

text \<open>
  The state the script changes: the module variable \<open>quotes\<close>, how often the clock and
  the two network sources have been asked, the time in milliseconds, the pending timers, the
  callbacks run so far with the times they were due, and what the page shows.
  \<open>datetimeText\<close> keeps the time part \<open>HH:MM\<close> of the datetime line, \<open>authorText\<close>
  the title and the author, \<open>weatherText\<close> the temperature and the weather code;
  \<open>errorBanner\<close> is the message that \<open>displayError\<close> puts in place of the quote
  container. Styling (font size, colours, alignment), the wake lock and the
  console are not modelled.
\<close>

record app =
  quotes :: "quote_record list"
  clockReads :: nat
  webTimeRequests :: nat
  weatherRequests :: nat
  now :: int
  timers :: "timer list"
  fired :: "(int \<times> task) list"
  quoteHTML :: jsstring
  faded :: bool
  authorText :: author_field
  datetimeText :: datetime_field
  weatherText :: weather_field
  errorBanner :: "jsstring option"

definition startup :: "int \<Rightarrow> app" where
  "startup t0 =
     \<lparr> quotes = [], clockReads = 0, webTimeRequests = 0, weatherRequests = 0,
       now = t0, timers = [], fired = [], quoteHTML = [], faded = False,
       authorText = AuthorInitial, datetimeText = DatetimeInitial,
       weatherText = WeatherInitial, errorBanner = None \<rparr>"

text \<open>
  \<open>setTimeout\<close> and \<open>setInterval\<close> add a timer that is due \<open>delay\<close> milliseconds
  from now; a negative delay counts as 0.
\<close>

definition setTimeout :: "task \<Rightarrow> int \<Rightarrow> app \<Rightarrow> app" where
  "setTimeout cb delay s =
     s\<lparr>timers := timers s @ [\<lparr>fireAt = now s + max 0 delay, period = None, callback = cb\<rparr>]\<rparr>"

definition setInterval :: "task \<Rightarrow> int \<Rightarrow> app \<Rightarrow> app" where
  "setInterval cb delay s =
     s\<lparr>timers := timers s @
        [\<lparr>fireAt = now s + max 0 delay, period = Some (max 0 delay), callback = cb\<rparr>]\<rparr>"

section \<open>Resolving the time\<close>

definition discrepancyMinutes :: "resolved_time \<Rightarrow> resolved_time \<Rightarrow> int" where
  "discrepancyMinutes systemTime webTime =
     (let systemMinutes = int (hours systemTime) * 60 + int (minutes systemTime);
          webMinutes = int (hours webTime) * 60 + int (minutes webTime)
      in \<bar>systemMinutes - webMinutes\<bar>)"

text \<open>
  \<open>getCurrentTime\<close>. The result is \<open>Inr\<close> of the time, or \<open>Inl\<close> of the error the
  script throws. The script looks neither at the status of the answer nor at whether the
  date parsed: with an Invalid Date the discrepancy is \<open>NaN\<close>, the comparison with the
  threshold is false, and the time of the device clock is returned. Only a rejection
  reaches the \<open>catch\<close> block, which reads the clock a second time.
\<close>

definition getCurrentTime :: "config \<Rightarrow> world \<Rightarrow> app \<Rightarrow> (error + resolved_time) \<times> app" where
  "getCurrentTime cfg w s =
     (let systemTimeData = systemClock w (clockReads s);
          s = s\<lparr>clockReads := clockReads s + 1\<rparr>
      in if \<not> useWebTime (timeSync cfg) then (Inr systemTimeData, s)
         else
           (let response = webTimeResponse w (webTimeRequests s);
                s = s\<lparr>webTimeRequests := webTimeRequests s + 1\<rparr>
            in case response of
                 WebTimeAnswer status (Some webTimeData) \<Rightarrow>
                   if discrepancyMinutes systemTimeData webTimeData * 60
                        > maxDiscrepancySeconds (timeSync cfg)
                   then (Inr webTimeData, s)
                   else (Inr systemTimeData, s)
               | WebTimeAnswer status None \<Rightarrow> (Inr systemTimeData, s)
               | WebTimeRejected \<Rightarrow>
                   if fallbackToSystemTime (timeSync cfg)
                   then (Inr (systemClock w (clockReads s)), s\<lparr>clockReads := clockReads s + 1\<rparr>)
                   else (Inl TimeUnavailable, s)))"

section \<open>Looking up the quote\<close>

text \<open>
  \<open>String(n)\<close> for a natural number, and \<open>padStart(2, '0')\<close>.
\<close>

definition digit :: "nat \<Rightarrow> codeunit" where
  "digit d = of_nat (48 + d)"

fun decimal :: "nat \<Rightarrow> jsstring" where
  "decimal n = (if n < 10 then [digit n] else decimal (n div 10) @ [digit (n mod 10)])"

declare decimal.simps [simp del]

definition padStart2 :: "jsstring \<Rightarrow> jsstring" where
  "padStart2 s = replicate (2 - length s) (of_char CHR ''0'') @ s"

definition formatTime :: "resolved_time \<Rightarrow> jsstring" where
  "formatTime t =
     padStart2 (decimal (hours t)) @ utf16 '':'' @ padStart2 (decimal (minutes t))"

definition findQuoteForCurrentTime ::
  "config \<Rightarrow> world \<Rightarrow> app \<Rightarrow> (error + quote_record option) \<times> app" where
  "findQuoteForCurrentTime cfg w s =
     (case getCurrentTime cfg w s of
        (Inl e, s) \<Rightarrow> (Inl e, s)
      | (Inr t, s) \<Rightarrow>
          (let currentTimeString = formatTime t;
               matchedQuote = find (\<lambda>q. time q = currentTimeString) (quotes s)
           in (Inr matchedQuote, s)))"

section \<open>Updating the page\<close>

text \<open>
  A function that the script calls without \<open>await\<close> is run to its end where it is
  called, and an error it throws is dropped there (an unhandled rejection); a function that
  is awaited hands its error to the caller.
\<close>

definition updateDateTimeDisplay :: "config \<Rightarrow> world \<Rightarrow> app \<Rightarrow> app" where
  "updateDateTimeDisplay cfg w s =
     (if \<not> present w DatetimeDisplay then s
      else case getCurrentTime cfg w s of
             (Inr t, s) \<Rightarrow>
               s\<lparr>clockReads := clockReads s + 1, datetimeText := DateAndTime (formatTime t)\<rparr>
           | (Inl e, s) \<Rightarrow>
               s\<lparr>datetimeText := DatetimeMessage (timeUnavailable (messages cfg))\<rparr>)"

definition updateWeatherDisplay :: "config \<Rightarrow> world \<Rightarrow> app \<Rightarrow> app" where
  "updateWeatherDisplay cfg w s =
     (if \<not> present w WeatherDisplay then s
      else
        (let response = weatherResponse w (weatherRequests s);
             s = s\<lparr>weatherRequests := weatherRequests s + 1\<rparr>
         in case response of
              Some (temperature, weathercode) \<Rightarrow>
                s\<lparr>weatherText := WeatherReport temperature weathercode\<rparr>
            | None \<Rightarrow>
                s\<lparr>weatherText := WeatherMessage (weatherUnavailable (messages cfg))\<rparr>))"

text \<open>
  The arrow function that \<open>updateQuote\<close> passes to \<open>setTimeout\<close>.
\<close>

definition renderQuote :: "config \<Rightarrow> world \<Rightarrow> quote_record option \<Rightarrow> app \<Rightarrow> app" where
  "renderQuote cfg w matchedQuote s =
     (case matchedQuote of
        None \<Rightarrow>
          (case getCurrentTime cfg w s of
             (Inl e, s) \<Rightarrow> s
           | (Inr t, s) \<Rightarrow>
               s\<lparr>quoteHTML := of_char (CHR 0x22) # noQuote (messages cfg) @ utf16 '' <strong>''
                                @ formatTime t @ utf16 ''</strong>...''
                                @ [of_char (CHR 0x22)],
                 authorText := AuthorMessage (noSource (messages cfg)),
                 faded := False\<rparr>)
      | Some q \<Rightarrow>
          (let truncatedQuote = smartTruncateQuote (runtime w) cfg (quote q) (timeString q);
               highlightedQuote = highlightTimeString (runtime w) truncatedQuote (timeString q)
           in s\<lparr>quoteHTML := of_char (CHR 0x22) # highlightedQuote @ [of_char (CHR 0x22)],
                authorText := Attribution (title q) (author q),
                faded := False\<rparr>))"

definition updateQuote :: "config \<Rightarrow> world \<Rightarrow> app \<Rightarrow> (error + unit) \<times> app" where
  "updateQuote cfg w s =
     (case findQuoteForCurrentTime cfg w s of
        (Inl e, s) \<Rightarrow> (Inl e, s)
      | (Inr matchedQuote, s) \<Rightarrow>
          if \<not> present w QuoteElement \<or> \<not> present w AuthorElement then (Inr (), s)
          else
            (let s = updateDateTimeDisplay cfg w s;
                 s = s\<lparr>faded := True\<rparr>
             in (Inr (), setTimeout (RenderQuote matchedQuote) (fadeOutDuration cfg) s)))"

definition displayError :: "world \<Rightarrow> jsstring \<Rightarrow> app \<Rightarrow> app" where
  "displayError w message s =
     (if present w QuoteContainer then s\<lparr>errorBanner := Some message\<rparr> else s)"

section \<open>Starting the application\<close>

definition loadQuotes :: "world \<Rightarrow> app \<Rightarrow> (error + unit) \<times> app" where
  "loadQuotes w s =
     (case datasetResponse w of
        DatasetFetchRejected \<Rightarrow> (Inl FetchRejected, s)
      | DatasetResponse status body \<Rightarrow>
          if \<not> (200 \<le> status \<and> status \<le> 299) then (Inl (HttpError status), s)
          else (case body of
                  None \<Rightarrow> (Inl JsonRejected, s)
                | Some loaded \<Rightarrow> (Inr (), s\<lparr>quotes := loaded\<rparr>)))"

definition setupFallbackKeepAwake :: "config \<Rightarrow> app \<Rightarrow> app" where
  "setupFallbackKeepAwake cfg s = setInterval KeepAwake (wakeLockFallbackInterval cfg) s"

definition setupPreciseMinuteTiming :: "config \<Rightarrow> world \<Rightarrow> app \<Rightarrow> app" where
  "setupPreciseMinuteTiming cfg w s =
     (case getCurrentTime cfg w s of
        (Inl e, s) \<Rightarrow> s
      | (Inr t, s) \<Rightarrow>
          (let msUntilNextMinute = (60 - int (seconds t)) * 1000
           in setTimeout StartMinuteUpdates msUntilNextMinute s))"

definition init :: "config \<Rightarrow> world \<Rightarrow> app \<Rightarrow> app" where
  "init cfg w s =
     (case loadQuotes w s of
        (Inl e, s) \<Rightarrow> displayError w (utf16 ''Failed to load quotes. Please refresh the page.'') s
      | (Inr u, s) \<Rightarrow>
          (let s = setupFallbackKeepAwake cfg s;
               s = updateDateTimeDisplay cfg w s;
               s = updateWeatherDisplay cfg w s
           in case updateQuote cfg w s of
                (Inl e, s) \<Rightarrow>
                  displayError w (utf16 ''Failed to load quotes. Please refresh the page.'') s
              | (Inr u, s) \<Rightarrow>
                  (let s = setupPreciseMinuteTiming cfg w s
                   in setInterval UpdateWeatherDisplay (weatherUpdateInterval cfg) s)))"

section \<open>Running the timers\<close>

definition runTask :: "config \<Rightarrow> world \<Rightarrow> task \<Rightarrow> app \<Rightarrow> app" where
  "runTask cfg w cb s =
     (case cb of
        UpdateQuote \<Rightarrow> snd (updateQuote cfg w s)
      | StartMinuteUpdates \<Rightarrow> setInterval UpdateQuote 60000 (snd (updateQuote cfg w s))
      | RenderQuote matchedQuote \<Rightarrow> renderQuote cfg w matchedQuote s
      | UpdateWeatherDisplay \<Rightarrow> updateWeatherDisplay cfg w s
      | KeepAwake \<Rightarrow> s)"

text \<open>
  The timer that is due first; of two timers due at the same time, the one set first.
\<close>

fun earliest :: "timer list \<Rightarrow> timer option" where
  "earliest [] = None"
| "earliest (t # ts) =
     (case earliest ts of
        None \<Rightarrow> Some t
      | Some u \<Rightarrow> if fireAt u < fireAt t then Some u else Some t)"

fun rearm :: "timer \<Rightarrow> int \<Rightarrow> timer list \<Rightarrow> timer list" where
  "rearm t p [] = []"
| "rearm t p (u # us) = (if u = t then u\<lparr>fireAt := fireAt u + p\<rparr> # us else u # rearm t p us)"

text \<open>
  One step of the event loop: the clock advances to the timer that is due first, a
  one-shot timer is removed and a repeating one is set again one period later, and the
  callback runs.
\<close>

definition fireNext :: "config \<Rightarrow> world \<Rightarrow> app \<Rightarrow> app" where
  "fireNext cfg w s =
     (case earliest (timers s) of
        None \<Rightarrow> s
      | Some t \<Rightarrow>
          (let s = s\<lparr>now := max (now s) (fireAt t),
                    timers := (case period t of
                                 None \<Rightarrow> remove1 t (timers s)
                               | Some p \<Rightarrow> rearm t p (timers s)),
                    fired := fired s @ [(fireAt t, callback t)]\<rparr>
           in runTask cfg w (callback t) s))"

text \<open>
  The words of the claim about the refresh cycle. A refresh is a run of a callback that
  calls \<open>updateQuote\<close>; \<open>refreshTimes\<close> lists the times at which the timers have
  started a refresh so far, and \<open>pendingRefreshes\<close> the timers that will start one.
  \<open>refreshTimer T k\<close> is the timer expected to start refresh number \<open>k\<close> of a cycle
  that begins at time \<open>T\<close>: the one-shot timer of \<open>setupPreciseMinuteTiming\<close> for
  \<open>k = 0\<close>, and afterwards the repeating timer, \<open>k\<close> periods of 60000 ms later.
\<close>

definition isRefresh :: "task \<Rightarrow> bool" where
  "isRefresh cb = (cb = UpdateQuote \<or> cb = StartMinuteUpdates)"

definition refreshTimes :: "app \<Rightarrow> int list" where
  "refreshTimes s = map fst (filter (\<lambda>(at, cb). isRefresh cb) (fired s))"

definition pendingRefreshes :: "app \<Rightarrow> timer list" where
  "pendingRefreshes s = filter (\<lambda>u. isRefresh (callback u)) (timers s)"

definition refreshTimer :: "int \<Rightarrow> nat \<Rightarrow> timer" where
  "refreshTimer T k =
     (if k = 0 then \<lparr>fireAt = T, period = None, callback = StartMinuteUpdates\<rparr>
      else \<lparr>fireAt = T + 60000 * int k, period = Some 60000, callback = UpdateQuote\<rparr>)"

text \<open>
  A state of the timers in which time goes on: no timer is overdue and every repeating
  timer has a positive period.
\<close>

definition timersSound :: "app \<Rightarrow> bool" where
  "timersSound s =
     (\<forall>u \<in> set (timers s). now s \<le> fireAt u \<and> (\<forall>p. period u = Some p \<longrightarrow> 0 < p))"

text \<open>
  \<open>cycleAt T k s\<close>: in the state \<open>s\<close> the timers have started exactly the first \<open>k\<close>
  refreshes of the cycle that begins at \<open>T\<close>, at the times \<open>T\<close>, \<open>T + 60000\<close>, ...,
  and exactly one timer that starts a refresh is pending, the one for refresh number \<open>k\<close>.
\<close>

definition cycleAt :: "int \<Rightarrow> nat \<Rightarrow> app \<Rightarrow> bool" where
  "cycleAt T k s =
     (timersSound s \<and>
      refreshTimes s = map (\<lambda>i. T + 60000 * int i) [0..<k] \<and>
      pendingRefreshes s = [refreshTimer T k])"

text \<open>
  A bound on how often a timer that starts no refresh fires until a refresh due at \<open>R\<close>
  has been started: not at all when it is due after \<open>R\<close>, once when it is a one-shot
  timer, and once for each of its due times up to \<open>R\<close> when it repeats.
\<close>

definition firingsUntil :: "int \<Rightarrow> timer \<Rightarrow> nat" where
  "firingsUntil R u =
     (if isRefresh (callback u) \<or> R < fireAt u then 0
      else case period u of
             None \<Rightarrow> 1
           | Some p \<Rightarrow> nat ((R - fireAt u) div p) + 1)"

section \<open>An engine and worlds for the examples\<close>

text \<open>
  An engine for the examples. It agrees with a JavaScript engine on the strings whose
  code units are at most U+00FF or U+0130: lower-casing maps \<open>A\<close>..\<open>Z\<close> and the capital
  letters U+00C0..U+00DE of Latin-1 (U+00D7 is the multiplication sign) to the letter 32
  code units higher and U+0130 to U+0069 U+0307; the canonicalisation maps \<open>a\<close>..\<open>z\<close> and
  the small letters U+00E0..U+00FE (U+00F7 is the division sign) to the letter 32 code
  units lower, U+00FF to U+0178 and U+00B5 to U+039C.
\<close>

definition lowerOne :: "codeunit \<Rightarrow> codeunit" where
  "lowerOne c =
     (if (0x41 \<le> c \<and> c \<le> 0x5A) \<or> (0xC0 \<le> c \<and> c \<le> 0xDE \<and> c \<noteq> 0xD7) then c + 0x20 else c)"

definition lowerUnit :: "codeunit \<Rightarrow> jsstring" where
  "lowerUnit c = (if c = 0x130 then [0x69, 0x307] else [lowerOne c])"

definition upperUnit :: "codeunit \<Rightarrow> codeunit" where
  "upperUnit c =
     (if (0x61 \<le> c \<and> c \<le> 0x7A) \<or> (0xE0 \<le> c \<and> c \<le> 0xFE \<and> c \<noteq> 0xF7) then c - 0x20
      else if c = 0xFF then 0x178
      else if c = 0xB5 then 0x39C
      else c)"

definition latin1Engine :: engine where
  "latin1Engine =
     \<lparr> toLowerCase = (\<lambda>s. concat (map lowerUnit s)), canonicalize = upperUnit \<rparr>"

text \<open>
  A world with this engine in which the clock always reads \<open>systemTime\<close>, every request
  to the web time API has the outcome \<open>webTime\<close>, the dataset request is answered by
  \<open>dataset\<close>, the weather requests fail and the page has all its elements.
\<close>

definition steadyWorld :: "resolved_time \<Rightarrow> web_time_response \<Rightarrow> dataset_response \<Rightarrow> world" where
  "steadyWorld systemTime webTime dataset =
     \<lparr> runtime = latin1Engine,
       systemClock = (\<lambda>n. systemTime),
       webTimeResponse = (\<lambda>n. webTime),
       datasetResponse = dataset,
       weatherResponse = (\<lambda>n. None),
       present = (\<lambda>e. True) \<rparr>"

definition webTimeConfig :: "int \<Rightarrow> bool \<Rightarrow> config" where
  "webTimeConfig threshold fallback =
     defaultConfig\<lparr>timeSync := \<lparr> useWebTime = True, maxDiscrepancySeconds = threshold,
                                 fallbackToSystemTime = fallback \<rparr>\<rparr>"

text \<open>
  The words of the claims about two times one second apart: the second of the day of a
  time, a time of the day, and two times of the day that are one second apart, on the same
  day or around midnight.
\<close>

definition secondOfDay :: "resolved_time \<Rightarrow> int" where
  "secondOfDay t = (int (hours t) * 60 + int (minutes t)) * 60 + int (seconds t)"

definition timeOfDay :: "resolved_time \<Rightarrow> bool" where
  "timeOfDay t = (hours t < 24 \<and> minutes t < 60 \<and> seconds t < 60)"

definition oneSecondApart :: "resolved_time \<Rightarrow> resolved_time \<Rightarrow> bool" where
  "oneSecondApart a b =
     (timeOfDay a \<and> timeOfDay b \<and>
      (\<bar>secondOfDay a - secondOfDay b\<bar> = 1 \<or> \<bar>secondOfDay a - secondOfDay b\<bar> = 86399))"

section \<open>Searching in strings\<close>

lemma length_utf16: "length (utf16 s) = length s"
  by (simp add: utf16_def)

lemma utf16_space: "utf16 '' '' = [0x20]"
  by (simp add: utf16_def)

lemma prefix_single_drop:
  "prefix [c] (drop k h) \<longleftrightarrow> k < length h \<and> h ! k = c"
proof (cases "k < length h")
  case True
  then have "drop k h = h ! k # drop (Suc k) h" by (simp add: Cons_nth_drop_Suc)
  then show ?thesis using True by auto
next
  case False
  then show ?thesis by simp
qed

lemma lastIndexDown_single:
  "lastIndexDown h [c] k \<noteq> -1 \<Longrightarrow> 0 \<le> lastIndexDown h [c] k \<and> lastIndexDown h [c] k \<le> int k 
    \<and> lastIndexDown h [c] k < int (length h) \<and> h ! nat (lastIndexDown h [c] k) = c"
proof (induction k)
  case 0 
  then show ?case using prefix_single_drop[of c 0 h] by (simp split: if_splits)
next
  case (Suc k)
  show ?case
  proof (cases "prefix [c] (drop (Suc k) h)")
    case True
    then have "Suc k < length h \<and> h ! Suc k = c" by (simp only: prefix_single_drop)
    moreover have "lastIndexDown h [c] (Suc k) = int (Suc k)" using True by simp
    ultimately show ?thesis by (simp only: nat_int) simp
  next
    case False
    then have "lastIndexDown h [c] (Suc k) = lastIndexDown h [c] k" by simp
    then show ?thesis using Suc by simp
  qed
qed

lemma indexOf_found:
  "indexOf h p \<noteq> -1 \<Longrightarrow> 0 \<le> indexOf h p \<and> prefix p (drop (nat (indexOf h p)) h)"
proof (induction h)
  case Nil 
  then show ?case by (simp split: if_splits)
next
  case (Cons c cs)
  show ?case
  proof (cases "prefix p (c # cs)")
    case True
    then show ?thesis by simp
  next
    case False
    then have ne: "indexOf cs p \<noteq> -1" using Cons.prems by (simp add: Let_def split: if_splits)
    then have eq: "indexOf (c # cs) p = indexOf cs p + 1" using False by (simp add: Let_def)
    from Cons.IH[OF ne] have ih: "0 \<le> indexOf cs p" "prefix p (drop (nat (indexOf cs p)) cs)" by simp_all
    have "nat (indexOf cs p + 1) = Suc (nat (indexOf cs p))" using ih(1) by simp
    then show ?thesis using ih eq by simp
  qed
qed

lemma indexOf_le_length: "indexOf h p \<le> int (length h)"
  by (induction h) (simp_all add: Let_def)

lemma indexOf_occurrence:
  assumes "indexOf h p \<noteq> -1"
  shows "0 \<le> indexOf h p" 
    and "indexOf h p + int (length p) \<le> int (length h)"
    and "\<And>k. k < length p \<Longrightarrow> h ! (nat (indexOf h p) + k) = p ! k"
proof -
  from indexOf_found[OF assms] have nn: "0 \<le> indexOf h p" and pre: "prefix p (drop (nat (indexOf h p)) h)" by simp_all
  from pre obtain r where r: "drop (nat (indexOf h p)) h = p @ r" by (auto simp: prefix_def)
  show "0 \<le> indexOf h p" by (rule nn)
  have "length (drop (nat (indexOf h p)) h) = length p + length r" using r by simp
  then have "length h - nat (indexOf h p) = length p + length r" by simp
  moreover have "nat (indexOf h p) \<le> length h" using indexOf_le_length[of h p] nn by linarith
  ultimately have le: "nat (indexOf h p) + length p \<le> length h" by linarith
  then show "indexOf h p + int (length p) \<le> int (length h)" using nn by linarith
  fix k assume k: "k < length p"
  have "h ! (nat (indexOf h p) + k) = drop (nat (indexOf h p)) h ! k" using le k by simp
  also have "\<dots> = p ! k" using r k by (simp add: nth_append)
  finally show "h ! (nat (indexOf h p) + k) = p ! k" .
qed

lemma indexOf_least:
  "prefix p (drop j h) \<Longrightarrow> indexOf h p \<noteq> -1 \<and> indexOf h p \<le> int j"
proof (induction h arbitrary: j)
  case Nil
  then show ?case by simp
next
  case (Cons c cs)
  show ?case
  proof (cases "prefix p (c # cs)")
    case True
    then show ?thesis by simp
  next
    case False
    with Cons.prems obtain j' where j: "j = Suc j'" by (cases j) auto
    with Cons.prems have "prefix p (drop j' cs)" by simp
    from Cons.IH[OF this] have ih: "indexOf cs p \<noteq> -1" "indexOf cs p \<le> int j'" by simp_all
    from indexOf_found[OF ih(1)] have "0 \<le> indexOf cs p" by simp
    moreover have "indexOf (c # cs) p = indexOf cs p + 1" using False ih(1) by (simp add: Let_def)
    ultimately show ?thesis using ih(2) j by simp
  qed
qed

lemma indexOf_single:
  "indexOf h [c] \<noteq> -1 \<Longrightarrow> 0 \<le> indexOf h [c] \<and> indexOf h [c] < int (length h) \<and> h ! nat (indexOf h [c]) = c"
  using indexOf_occurrence[of h "[c]"] by force

lemma indexOfFrom_single:
  assumes "indexOfFrom q [c] s \<noteq> -1" and "0 \<le> s"
  shows "s \<le> indexOfFrom q [c] s \<and> indexOfFrom q [c] s < int (length q) \<and> q ! nat (indexOfFrom q [c] s) = c"
proof -
  define p where "p = min (max s 0) (int (length q))"
  define r where "r = indexOf (drop (nat p) q) [c]"
  have eq: "indexOfFrom q [c] s = (if r = -1 then -1 else r + p)"
    by (simp add: indexOfFrom_def Let_def p_def r_def)
  with assms have rn: "r \<noteq> -1" by (simp split: if_splits)
  from indexOf_single[of "drop (nat p) q" c] rn 
  have r0: "0 \<le> r" and r1: "r < int (length (drop (nat p) q))" and r2: "drop (nat p) q ! nat r = c"
    by (simp_all add: r_def)
  have p0: "0 \<le> p" "p \<le> int (length q)" by (simp_all add: p_def)
  from r1 have lt: "r + p < int (length q)" using p0 by simp
  then have ps: "p = s" using assms(2) r0 by (simp add: p_def)
  have "q ! nat (r + p) = drop (nat p) q ! nat r" using lt p0 r0 by (simp add: nat_add_distrib add.commute)
  then show ?thesis using eq rn r0 lt ps r2 by simp
qed

lemma lastIndexOf_single:
  assumes "lastIndexOf q [c] e \<noteq> -1" and "0 \<le> e"
  shows "0 \<le> lastIndexOf q [c] e \<and> lastIndexOf q [c] e \<le> e \<and> lastIndexOf q [c] e < int (length q) 
       \<and> q ! nat (lastIndexOf q [c] e) = c"
proof -
  define k where "k = nat (min (max e 0) (int (length q)))"
  have eq: "lastIndexOf q [c] e = lastIndexDown q [c] k" by (simp add: lastIndexOf_def k_def)
  have "int k \<le> e" using assms(2) by (simp add: k_def)
  then show ?thesis using lastIndexDown_single[of q c k] assms(1) eq by simp
qed

section \<open>The truncation window\<close>

lemma centredWindow_closed:
  assumes "120 < len"
  shows "centredWindow len ti tlen =
           (let a = max 0 (ti - (120 - tlen) div 2)
            in if len \<le> a + 120 then (len - 120, len) else (a, a + 120))"
proof -
  define a where "a = max 0 (ti - (120 - tlen) div 2)"
  have a0: "0 \<le> a" by (simp add: a_def)
  show ?thesis
  proof (cases "len \<le> a + 120")
    case True
    then have m: "min len (a + 120) = len" by simp
    have "centredWindow len ti tlen = (len - 120, len)"
      unfolding centredWindow_def Let_def a_def[symmetric] m using assms by simp
    then show ?thesis using True by (simp add: Let_def a_def[symmetric])
  next
    case False
    then have m: "min len (a + 120) = a + 120" by simp
    have ne: "a + 120 \<noteq> len" using False by simp
    have "centredWindow len ti tlen = (a, a + 120)"
      unfolding centredWindow_def Let_def a_def[symmetric] m using assms ne by simp
    then show ?thesis using False by (simp add: Let_def a_def[symmetric])
  qed
qed

lemma centredWindow_width:
  assumes "120 < len" and "centredWindow len ti tlen = (s0, e0)"
  shows "0 \<le> s0 \<and> e0 = s0 + 120 \<and> e0 \<le> len"
proof -
  define a where "a = max 0 (ti - (120 - tlen) div 2)"
  have a0: "0 \<le> a" by (simp add: a_def)
  have "(s0, e0) = (if len \<le> a + 120 then (len - 120, len) else (a, a + 120))"
    using centredWindow_closed[OF assms(1), of ti tlen] assms(2) by (simp add: Let_def a_def)
  then show ?thesis using assms(1) a0 by (cases "len \<le> a + 120") simp_all
qed

lemma centredWindow_token:
  assumes "120 < len" and "0 \<le> ti" and "0 \<le> tlen" and "tlen \<le> 120" and "ti + tlen \<le> len"
    and "centredWindow len ti tlen = (s0, e0)"
  shows "(s0 = 0 \<or> (120 - tlen) div 2 \<le> ti - s0) \<and> (e0 = len \<or> 120 - tlen - (120 - tlen) div 2 \<le> e0 - (ti + tlen))"
proof -
  define h where "h = (120 - tlen) div 2"
  define a where "a = max 0 (ti - h)"
  have h0: "0 \<le> h" using assms(4) by (simp add: h_def)
  have a0: "0 \<le> a" by (simp add: a_def)
  have w: "(s0, e0) = (if len \<le> a + 120 then (len - 120, len) else (a, a + 120))"
    using centredWindow_closed[OF assms(1), of ti tlen] assms(6) by (simp add: Let_def a_def h_def)
  show ?thesis
  proof (cases "len \<le> a + 120")
    case True
    then have se: "s0 = len - 120" "e0 = len" using w by simp_all
    have "a \<noteq> 0" using True assms(1) by auto
    then have "a = ti - h" by (simp add: a_def max_def split: if_splits)
    then have "h \<le> ti - s0" using True se by simp
    then show ?thesis using se by (simp add: h_def)
  next
    case False
    then have se: "s0 = a" "e0 = a + 120" using w by simp_all
    have 1: "s0 = 0 \<or> h \<le> ti - s0" using se by (auto simp: a_def max_def split: if_splits)
    have "ti - h \<le> a" by (simp add: a_def)
    then have 2: "120 - tlen - h \<le> e0 - (ti + tlen)" using se by simp
    from 1 2 show ?thesis by (simp add: h_def)
  qed
qed

lemma snapStart_range:
  assumes "0 \<le> s" and "s \<le> int (length q)"
  shows "s \<le> snapStart q s \<and> snapStart q s \<le> s + 15 \<and> snapStart q s \<le> int (length q)
       \<and> (snapStart q s = s \<or> q ! nat (snapStart q s - 1) = 0x20)"
proof (cases "0 < s \<and> indexOfFrom q [0x20] s \<noteq> -1 \<and> indexOfFrom q [0x20] s < s + 15")
  case True
  then have eq: "snapStart q s = indexOfFrom q [0x20] s + 1"
    by (simp add: snapStart_def Let_def utf16_space)
  from True indexOfFrom_single[of q "0x20" s] assms(1)
  have "s \<le> indexOfFrom q [0x20] s \<and> indexOfFrom q [0x20] s < int (length q) \<and> q ! nat (indexOfFrom q [0x20] s) = 0x20"
    by simp
  then show ?thesis using eq True by simp
next
  case False
  then have "snapStart q s = s" by (auto simp add: snapStart_def Let_def utf16_space)
  then show ?thesis using assms by simp
qed

lemma snapEnd_range:
  assumes "0 \<le> e" and "e \<le> int (length q)"
  shows "e - 14 \<le> snapEnd q e \<and> snapEnd q e \<le> e \<and> 0 \<le> snapEnd q e
       \<and> (snapEnd q e = e \<or> q ! nat (snapEnd q e) = 0x20)"
proof (cases "e < int (length q) \<and> lastIndexOf q [0x20] e \<noteq> -1 \<and> lastIndexOf q [0x20] e > e - 15")
  case True
  then have eq: "snapEnd q e = lastIndexOf q [0x20] e"
    by (simp add: snapEnd_def Let_def utf16_space)
  from True lastIndexOf_single[of q "0x20" e] assms(1)
  have "0 \<le> lastIndexOf q [0x20] e \<and> lastIndexOf q [0x20] e \<le> e \<and> q ! nat (lastIndexOf q [0x20] e) = 0x20"
    by simp
  then show ?thesis using eq True by simp
next
  case False
  then have "snapEnd q e = e" by (auto simp add: snapEnd_def Let_def utf16_space)
  then show ?thesis using assms by simp
qed

lemma substring_ordered:
  assumes "0 \<le> a" and "a \<le> b" and "b \<le> int (length s)"
  shows "substring s a b = take (nat (b - a)) (drop (nat a) s)"
proof -
  have "min (max a 0) (int (length s)) = a" "min (max b 0) (int (length s)) = b"
    using assms by simp_all
  then show ?thesis using assms(2) by (simp add: substring_def Let_def)
qed

lemma length_substring_ordered:
  assumes "0 \<le> a" and "a \<le> b" and "b \<le> int (length s)"
  shows "int (length (substring s a b)) = b - a"
  using assms by (simp add: substring_ordered)

lemma truncationWindow_bounds:
  assumes "120 < length q" and "truncationWindow q ti tlen = (s1, e1)"
  shows "0 \<le> s1 \<and> s1 \<le> e1 \<and> e1 \<le> int (length q) \<and> e1 - s1 \<le> 120"
proof -
  obtain s0 e0 where c: "centredWindow (int (length q)) ti tlen = (s0, e0)" by fastforce
  have len: "120 < int (length q)" using assms(1) by simp
  from centredWindow_width[OF len c] have w: "0 \<le> s0" "e0 = s0 + 120" "e0 \<le> int (length q)" by simp_all
  have se: "s1 = snapStart q s0" "e1 = snapEnd q e0"
    using assms(2) c by (simp_all add: truncationWindow_def)
  have "s0 \<le> int (length q)" using w by simp
  from snapStart_range[OF w(1) this] have a: "s0 \<le> s1" "s1 \<le> s0 + 15" by (simp_all add: se)
  have "0 \<le> e0" using w by simp
  from snapEnd_range[OF this w(3)] have b: "e0 - 14 \<le> e1" "e1 \<le> e0" by (simp_all add: se)
  show ?thesis using w a b by simp
qed

text \<open>
  The result for a text longer than 120 code units: a window of at most 120 code units of
  the text, with an ellipsis marker at each end at which the text goes on, and at least at
  one end.
\<close>

lemma smartTruncateQuote_window:
  assumes "120 < length q"
  shows "\<exists>s e. 0 \<le> s \<and> s \<le> e \<and> e \<le> int (length q) \<and> e - s \<le> 120 \<and>
               (0 < s \<or> e < int (length q)) \<and>
               smartTruncateQuote js cfg q t =
                 (if 0 < s then utf16 ''...'' else []) @ substring q s e
                 @ (if e < int (length q) then utf16 ''...'' else [])"
proof (cases "indexOf (toLowerCase js q) (toLowerCase js t) = -1")
  case True
  have "smartTruncateQuote js cfg q t = substring q 0 117 @ utf16 ''...''"
    using assms True by (simp add: smartTruncateQuote_def Let_def)
  then have "0 \<le> (0::int) \<and> (0::int) \<le> 117 \<and> 117 \<le> int (length q) \<and> (117::int) - 0 \<le> 120 \<and>
             ((0::int) < 0 \<or> 117 < int (length q)) \<and>
             smartTruncateQuote js cfg q t =
               (if (0::int) < 0 then utf16 ''...'' else []) @ substring q 0 117
               @ (if 117 < int (length q) then utf16 ''...'' else [])"
    using assms by simp
  then show ?thesis by blast
next
  case False
  define ti where "ti = indexOf (toLowerCase js q) (toLowerCase js t)"
  obtain s1 e1 where w: "truncationWindow q ti (int (length t)) = (s1, e1)" by fastforce
  from truncationWindow_bounds[OF assms w]
  have b: "0 \<le> s1" "s1 \<le> e1" "e1 \<le> int (length q)" "e1 - s1 \<le> 120" by simp_all
  have m: "0 < s1 \<or> e1 < int (length q)" using b assms by linarith
  have "smartTruncateQuote js cfg q t =
          (if 0 < s1 then utf16 ''...'' else []) @ substring q s1 e1
           @ (if e1 < int (length q) then utf16 ''...'' else [])"
    using assms False w by (simp add: smartTruncateQuote_def Let_def ti_def[symmetric])
  with b m show ?thesis by blast
qed

lemma smartTruncateQuote_length:
  assumes "120 < length q"
  shows "length (smartTruncateQuote js cfg q t) \<le> 126"
proof -
  from smartTruncateQuote_window[OF assms, of js cfg t]
  obtain s e where b: "0 \<le> s" "s \<le> e" "e \<le> int (length q)" "e - s \<le> 120"
    and r: "smartTruncateQuote js cfg q t =
              (if 0 < s then utf16 ''...'' else []) @ substring q s e
              @ (if e < int (length q) then utf16 ''...'' else [])"
    by blast
  have l: "int (length (substring q s e)) \<le> 120"
    using b by (simp add: length_substring_ordered)
  from r have "int (length (smartTruncateQuote js cfg q t)) \<le> 3 + int (length (substring q s e)) + 3"
    by (simp add: length_utf16)
  then show ?thesis using l by linarith
qed

section \<open>The window and the occurrence of the token\<close>

lemma foldsInPlace_strings:
  assumes "foldsInPlace js lc q t"
  shows "toLowerCase js q = map lc q" and "toLowerCase js t = map lc t"
    and "toLowerCase js (take n (drop p q)) = map lc (take n (drop p q))"
proof -
  from assms have a: "\<And>s. set s \<subseteq> set q \<union> set t \<Longrightarrow> toLowerCase js s = map lc s"
    by (simp add: foldsInPlace_def)
  show "toLowerCase js q = map lc q" by (rule a) simp
  show "toLowerCase js t = map lc t" by (rule a) simp
  have "set (take n (drop p q)) \<subseteq> set q"
    using set_take_subset[of n "drop p q"] set_drop_subset[of p q] by blast
  then show "toLowerCase js (take n (drop p q)) = map lc (take n (drop p q))"
    by (intro a) blast
qed

lemma foldsInPlace_space:
  assumes "foldsInPlace js lc q t" and "c \<in> set q \<union> set t"
  shows "(lc c = 0x20) = (c = 0x20)"
  using assms by (simp add: foldsInPlace_def)

lemma firstOccurrence_in_place:
  assumes f: "foldsInPlace js lc q t"
    and found: "indexOf (toLowerCase js q) (toLowerCase js t) \<noteq> -1"
  shows "firstOccurrence js q t = Some (nat (indexOf (toLowerCase js q) (toLowerCase js t)))"
proof -
  note fs = foldsInPlace_strings[OF f]
  define ti where "ti = indexOf (map lc q) (map lc t)"
  have tiq: "indexOf (toLowerCase js q) (toLowerCase js t) = ti" by (simp add: fs ti_def)
  have ne: "indexOf (map lc q) (map lc t) \<noteq> -1" using found by (simp add: fs)
  from indexOf_found[OF ne] have ti0: "0 \<le> ti"
    and pre: "prefix (map lc t) (drop (nat ti) (map lc q))" by (simp_all add: ti_def)
  from indexOf_occurrence(2)[OF ne] have fits: "nat ti + length t \<le> length q"
    using ti0 by (simp add: ti_def)
  have m: "\<And>p. matchesAt js q t p
             = (p + length t \<le> length q \<and> take (length t) (drop p (map lc q)) = map lc t)"
    by (simp add: matchesAt_def fs take_map drop_map)
  from pre obtain r where "drop (nat ti) (map lc q) = map lc t @ r" by (auto simp: prefix_def)
  then have "take (length t) (drop (nat ti) (map lc q)) = map lc t" by simp
  then have here: "matchesAt js q t (nat ti)" using fits by (simp add: m)
  have before: "\<not> matchesAt js q t j" if "j < nat ti" for j
  proof
    assume "matchesAt js q t j"
    then have "take (length t) (drop j (map lc q)) = map lc t" by (simp add: m)
    then have "prefix (map lc t) (drop j (map lc q))" by (metis take_is_prefix)
    from indexOf_least[OF this] have "ti \<le> int j" by (simp add: ti_def)
    with that show False by linarith
  qed
  have lt: "nat ti < length [0..<Suc (length q)]" using fits by simp
  have nth: "\<And>j. j \<le> nat ti \<Longrightarrow> [0..<Suc (length q)] ! j = j"
  proof -
    fix j assume "j \<le> nat ti"
    then have "j < Suc (length q)" using fits by simp
    then have "[0..<Suc (length q)] ! j = 0 + j" by (intro nth_upt) simp
    then show "[0..<Suc (length q)] ! j = j" by simp
  qed
  have "find (matchesAt js q t) [0..<Suc (length q)] = Some (nat ti)"
    unfolding find_Some_iff
  proof (intro exI[of _ "nat ti"] conjI allI impI)
    show "nat ti < length [0..<Suc (length q)]" by (rule lt)
    show "matchesAt js q t ([0..<Suc (length q)] ! nat ti)" using here nth[of "nat ti"] by simp
    show "nat ti = [0..<Suc (length q)] ! nat ti" using nth[of "nat ti"] by simp
    fix j assume "j < nat ti"
    then show "\<not> matchesAt js q t ([0..<Suc (length q)] ! j)" using before[of j] nth[of j] by simp
  qed
  then show ?thesis by (simp add: firstOccurrence_def tiq)
qed

lemma occurrence_has_no_space:
  assumes f: "foldsInPlace js lc q t"
    and ti: "ti = indexOf (toLowerCase js q) (toLowerCase js t)" and found: "ti \<noteq> -1"
    and nosp: "0x20 \<notin> set t" and lo: "ti \<le> j" and hi: "j < ti + int (length t)"
  shows "q ! nat j \<noteq> 0x20"
proof
  assume sp: "q ! nat j = 0x20"
  note fs = foldsInPlace_strings[OF f]
  from found have ne: "indexOf (map lc q) (map lc t) \<noteq> -1" by (simp add: ti fs)
  note occ = indexOf_occurrence[OF ne]
  have tim: "ti = indexOf (map lc q) (map lc t)" by (simp add: ti fs)
  have ti0: "0 \<le> ti" using occ(1) by (simp add: tim)
  have fits: "ti + int (length t) \<le> int (length q)" using occ(2) by (simp add: tim)
  define k where "k = nat (j - ti)"
  have k: "k < length t" using lo hi by (simp add: k_def)
  have j: "nat j = nat ti + k" using lo ti0 by (simp add: k_def)
  have jq: "nat j < length q" using hi fits lo ti0 by linarith
  have "map lc q ! (nat ti + k) = map lc t ! k"
    using occ(3)[of k] k by (simp add: tim)
  then have "lc (q ! nat j) = lc (t ! k)"
    using jq k j by simp
  moreover have "q ! nat j \<in> set q \<union> set t" using jq by simp
  moreover have tk: "t ! k \<in> set q \<union> set t" using k by simp
  ultimately have "lc (t ! k) = 0x20"
    using sp foldsInPlace_space[OF f, of "q ! nat j"] by simp
  then have "t ! k = 0x20" using foldsInPlace_space[OF f tk] by simp
  then have "0x20 \<in> set t" using k by (metis nth_mem)
  with nosp show False by simp
qed

lemma snapStart_zero: "snapStart q 0 = 0"
  by (simp add: snapStart_def)

lemma snapEnd_length: "snapEnd q (int (length q)) = int (length q)"
  by (simp add: snapEnd_def)

lemma token_not_split:
  assumes long: "120 < length q"
    and f: "foldsInPlace js lc q t"
    and tok: "length t \<le> 90 \<or> (length t \<le> 120 \<and> 0x20 \<notin> set t)"
  shows "\<not> tokenSplit js q t"
proof (cases "indexOf (toLowerCase js q) (toLowerCase js t) = -1")
  case True
  then show ?thesis by (simp add: tokenSplit_def Let_def)
next
  case False
  note fs = foldsInPlace_strings[OF f]
  define ti where "ti = indexOf (toLowerCase js q) (toLowerCase js t)"
  define tlen where "tlen = int (length t)"
  define len where "len = int (length q)"
  have found: "ti \<noteq> -1" using False by (simp add: ti_def)
  have ne: "indexOf (map lc q) (map lc t) \<noteq> -1" using False by (simp add: fs)
  have tim: "ti = indexOf (map lc q) (map lc t)" by (simp add: ti_def fs)
  note occ = indexOf_occurrence[OF ne]
  have ti0: "0 \<le> ti" using occ(1) by (simp add: tim)
  have fits: "ti + tlen \<le> len"
    using occ(2) by (simp add: tim tlen_def len_def)
  have tl0: "0 \<le> tlen" by (simp add: tlen_def)
  have tl120: "tlen \<le> 120" using tok by (auto simp: tlen_def)
  have len120: "120 < len" using long by (simp add: len_def)
  obtain s0 e0 where c: "centredWindow len ti tlen = (s0, e0)" by fastforce
  define s1 where "s1 = snapStart q s0"
  define e1 where "e1 = snapEnd q e0"
  have w: "truncationWindow q ti tlen = (s1, e1)"
    using c by (simp add: truncationWindow_def len_def s1_def e1_def)
  from centredWindow_width[OF len120 c]
  have cw: "0 \<le> s0" "e0 = s0 + 120" "e0 \<le> len" by simp_all
  from centredWindow_token[OF len120 ti0 tl0 tl120 fits c]
  have ct: "s0 = 0 \<or> (120 - tlen) div 2 \<le> ti - s0"
           "e0 = len \<or> 120 - tlen - (120 - tlen) div 2 \<le> e0 - (ti + tlen)" by simp_all
  have "s0 \<le> int (length q)" using cw by (simp add: len_def)
  from snapStart_range[OF cw(1) this]
  have ss: "s0 \<le> s1" "s1 \<le> s0 + 15" "s1 = s0 \<or> q ! nat (s1 - 1) = 0x20"
    by (simp_all add: s1_def)
  have "0 \<le> e0" "e0 \<le> int (length q)" using cw by (simp_all add: len_def)
  from snapEnd_range[OF this]
  have ee: "e0 - 14 \<le> e1" "e1 \<le> e0" "e1 = e0 \<or> q ! nat e1 = 0x20"
    by (simp_all add: e1_def)
  have s00: "s0 = 0 \<Longrightarrow> s1 = 0" by (simp add: s1_def snapStart_zero)
  have e00: "e0 = len \<Longrightarrow> e1 = len" by (simp add: e1_def len_def snapEnd_length)
  have start_ok: "\<not> (ti < s1 \<and> s1 < ti + tlen)"
  proof
    assume in_tok: "ti < s1 \<and> s1 < ti + tlen"
    from tok show False
    proof
      assume "length t \<le> 90"
      then have "15 \<le> (120 - tlen) div 2" by (simp add: tlen_def)
      with ct(1) s00 ss(2) have "s1 \<le> ti" using ti0 by linarith
      with in_tok show False by simp
    next
      assume ns: "length t \<le> 120 \<and> 0x20 \<notin> set t"
      have "0 \<le> (120 - tlen) div 2" using tl120 by simp
      with ct(1) have "s0 \<le> ti" using ti0 by linarith
      with in_tok have "s1 \<noteq> s0" by simp
      with ss(3) have sp: "q ! nat (s1 - 1) = 0x20" by simp
      have "q ! nat (s1 - 1) \<noteq> 0x20"
        using occurrence_has_no_space[OF f, of ti "s1 - 1"] found ns in_tok
        by (simp add: ti_def tlen_def)
      with sp show False by simp
    qed
  qed
  have end_ok: "\<not> (ti < e1 \<and> e1 < ti + tlen)"
  proof
    assume in_tok: "ti < e1 \<and> e1 < ti + tlen"
    from tok show False
    proof
      assume "length t \<le> 90"
      then have "15 \<le> 120 - tlen - (120 - tlen) div 2" by (simp add: tlen_def)
      with ct(2) e00 ee(1) fits have "ti + tlen \<le> e1" by linarith
      with in_tok show False by simp
    next
      assume ns: "length t \<le> 120 \<and> 0x20 \<notin> set t"
      have "0 \<le> 120 - tlen - (120 - tlen) div 2" using tl120 by simp
      with ct(2) fits have "ti + tlen \<le> e0" by linarith
      with in_tok have "e1 \<noteq> e0" by simp
      with ee(3) have sp: "q ! nat e1 = 0x20" by simp
      have "q ! nat e1 \<noteq> 0x20"
        using occurrence_has_no_space[OF f, of ti e1] found ns in_tok
        by (simp add: ti_def tlen_def)
      with sp show False by simp
    qed
  qed
  have p: "firstOccurrence js q t = Some (nat ti)"
    using firstOccurrence_in_place[OF f False] by (simp add: ti_def)
  have "tokenSplit js q t = ((ti < s1 \<and> s1 < ti + tlen) \<or> (ti < e1 \<and> e1 < ti + tlen))"
    using w found ti0 p
    by (simp add: tokenSplit_def Let_def ti_def[symmetric] tlen_def[symmetric])
  with start_ok end_ok show ?thesis by simp
qed

section \<open>The engine of the examples\<close>

lemma lowerOne_space: "(lowerOne c = 0x20) = (c = 0x20)"
  by (auto simp add: lowerOne_def)

lemma latin1_toLowerCase:
  "0x130 \<notin> set s \<Longrightarrow> toLowerCase latin1Engine s = map lowerOne s"
  by (induction s) (simp_all add: latin1Engine_def lowerUnit_def)

lemma latin1_folds_in_place:
  assumes "0x130 \<notin> set q" and "0x130 \<notin> set t"
  shows "foldsInPlace latin1Engine lowerOne q t"
  unfolding foldsInPlace_def
proof (intro conjI allI impI ballI)
  fix s :: jsstring
  assume "set s \<subseteq> set q \<union> set t"
  with assms have "0x130 \<notin> set s" by blast
  then show "toLowerCase latin1Engine s = map lowerOne s" by (rule latin1_toLowerCase)
next
  fix c :: codeunit
  show "(lowerOne c = 0x20) = (c = 0x20)" by (rule lowerOne_space)
qed


lemma tokenSplit_in_place:
  assumes f: "foldsInPlace js lc q t"
  shows "tokenSplit js q t =
           (let ti = indexOf (map lc q) (map lc t);
                (s1, e1) = truncationWindow q ti (int (length t))
            in ti \<noteq> -1 \<and>
               ((ti < s1 \<and> s1 < ti + int (length t)) \<or> (ti < e1 \<and> e1 < ti + int (length t))))"
proof (cases "indexOf (toLowerCase js q) (toLowerCase js t) = -1")
  case True
  then show ?thesis
    by (simp add: tokenSplit_def Let_def foldsInPlace_strings[OF f] split: prod.splits)
next
  case False
  note fs = foldsInPlace_strings[OF f]
  have ne: "indexOf (map lc q) (map lc t) \<noteq> -1" using False by (simp add: fs)
  from indexOf_found[OF ne] have ti0: "0 \<le> indexOf (map lc q) (map lc t)" by simp
  have p: "firstOccurrence js q t = Some (nat (indexOf (map lc q) (map lc t)))"
    using firstOccurrence_in_place[OF f False] by (simp add: fs)
  show ?thesis using ne ti0 p
    by (simp add: tokenSplit_def Let_def fs(1,2) split: prod.splits)
qed

lemma indexOf_absent: "c \<notin> set h \<Longrightarrow> indexOf h [c] = -1"
proof (rule ccontr)
  assume a: "c \<notin> set h" and "indexOf h [c] \<noteq> -1"
  from indexOf_single[OF this(2)]
  have "nat (indexOf h [c]) < length h" and "h ! nat (indexOf h [c]) = c" by linarith+
  then have "c \<in> set h" by (metis nth_mem)
  with a show False by simp
qed

lemma snapStart_no_space: "0x20 \<notin> set q \<Longrightarrow> snapStart q s = s"
proof -
  assume a: "0x20 \<notin> set q"
  have "0x20 \<notin> set (drop (nat (min (max s 0) (int (length q)))) q)"
    using a by (auto dest: in_set_dropD)
  then have "indexOfFrom q [0x20] s = -1"
    by (simp add: indexOfFrom_def Let_def indexOf_absent)
  then show ?thesis by (simp add: snapStart_def utf16_space)
qed

lemma snapEnd_no_space: "0x20 \<notin> set q \<Longrightarrow> snapEnd q e = e"
proof -
  assume a: "0x20 \<notin> set q"
  have "lastIndexOf q [0x20] e = -1"
  proof (rule ccontr)
    assume ne: "lastIndexOf q [0x20] e \<noteq> -1"
    define k where "k = nat (min (max e 0) (int (length q)))"
    have eq: "lastIndexOf q [0x20] e = lastIndexDown q [0x20] k"
      by (simp add: lastIndexOf_def k_def)
    from lastIndexDown_single[of q "0x20" k] ne eq
    have r: "0 \<le> lastIndexDown q [0x20] k" "lastIndexDown q [0x20] k < int (length q)"
      "q ! nat (lastIndexDown q [0x20] k) = 0x20"
      by simp_all
    then have "nat (lastIndexDown q [0x20] k) < length q" by linarith
    with r(3) have "nat (lastIndexDown q [0x20] k) < length q"
      and "q ! nat (lastIndexDown q [0x20] k) = 0x20"
      by simp_all
    then have "0x20 \<in> set q" by (metis nth_mem)
    with a show False by simp
  qed
  then show ?thesis by (simp add: snapEnd_def utf16_space)
qed

lemma truncationWindow_no_space:
  "0x20 \<notin> set q \<Longrightarrow> truncationWindow q ti tlen = centredWindow (int (length q)) ti tlen"
  by (simp add: truncationWindow_def snapStart_no_space snapEnd_no_space split: prod.splits)


section \<open>Claims about the character-budget fitter\<close>

text \<open>
  C1 (amended). For every engine, every quote text longer than the budget of 120 code
  units and every time token, \<open>smartTruncateQuote\<close> returns at most 126 code units (the
  budget and two ellipsis markers). If moreover lower-casing works in place on the text and
  the token, and the token has at most 90 code units, or has at most 120 code units and
  contains no space, then no edge of the window lies strictly inside the first occurrence
  of the token in the text.
\<close>

theorem smartTruncateQuote_long:
  "120 < length quoteText \<Longrightarrow>
     length (smartTruncateQuote js cfg quoteText token) \<le> 126 \<and>
     (foldsInPlace js lc quoteText token \<and>
      (length token \<le> 90 \<or> (length token \<le> 120 \<and> 0x20 \<notin> set token))
        \<longrightarrow> \<not> tokenSplit js quoteText token)"
  using smartTruncateQuote_length[of quoteText js cfg token]
    token_not_split[of quoteText js lc token]
  by blast

text \<open>
  C1, witness: a quote of 220 characters with the token \<open>9:41\<close>, on the engine of the
  examples.
\<close>

theorem smartTruncateQuote_long_witness:
  "120 < length (utf16 ''It was the best of times, it was the worst of times, it was the age of wisdom, it was the age of foolishness, it was the epoch of belief, when the clock struck 9:41 and everybody in the room fell silent for a long while.'') \<and>
   foldsInPlace latin1Engine lowerOne (utf16 ''It was the best of times, it was the worst of times, it was the age of wisdom, it was the age of foolishness, it was the epoch of belief, when the clock struck 9:41 and everybody in the room fell silent for a long while.'') (utf16 ''9:41'') \<and>
   length (utf16 ''9:41'') \<le> 90 \<and>
   length (smartTruncateQuote latin1Engine defaultConfig (utf16 ''It was the best of times, it was the worst of times, it was the age of wisdom, it was the age of foolishness, it was the epoch of belief, when the clock struck 9:41 and everybody in the room fell silent for a long while.'') (utf16 ''9:41'')) \<le> 126 \<and>
   \<not> tokenSplit latin1Engine (utf16 ''It was the best of times, it was the worst of times, it was the age of wisdom, it was the age of foolishness, it was the epoch of belief, when the clock struck 9:41 and everybody in the room fell silent for a long while.'') (utf16 ''9:41'')"
proof -
  define q where "q = utf16 ''It was the best of times, it was the worst of times, it was the age of wisdom, it was the age of foolishness, it was the epoch of belief, when the clock struck 9:41 and everybody in the room fell silent for a long while.''"
  have long: "120 < length q" by (simp add: q_def length_utf16)
  have short: "length (utf16 ''9:41'') \<le> 90" by (simp add: length_utf16)
  have "0x130 \<notin> set q" by (simp add: q_def utf16_def)
  moreover have "0x130 \<notin> set (utf16 ''9:41'')" by (simp add: utf16_def)
  ultimately have folds: "foldsInPlace latin1Engine lowerOne q (utf16 ''9:41'')"
    by (rule latin1_folds_in_place)
  from smartTruncateQuote_long[OF long, of latin1Engine defaultConfig "utf16 ''9:41''" lowerOne]
    long short folds
  show ?thesis unfolding q_def by blast
qed

text \<open>
  C1 as stated, for every quote text and every time token, fails. First input: the token
  is a space followed by 90 letters \<open>a\<close> (91 characters), and the quote is that token
  between two runs of 20 letters \<open>b\<close> (131 characters). The token is found at index 20,
  the window is centred to 6..126, and the start edge snaps behind the first space at or
  after 6, the token's own first character: the window 21..126 starts inside the token.
  Second input: the quote and the token are both 121 letters \<open>a\<close>; the window of 120
  characters is 1..121 and cannot hold the token. Third input: the quote is 60 times the
  letter U+0130, then the token \<open>9:41\<close>, then 200 letters \<open>x\<close>. Lower-casing turns every
  U+0130 into two code units, so the token is found at index 120 of the lower-cased text,
  while it stands at index 60 of the text; the window 62..182 is placed by the index 120
  and starts inside the token.
\<close>

theorem token_split_counterexample:
  "120 < length (replicate 20 (of_char CHR ''b'') @ 0x20 # replicate 90 (of_char CHR ''a'')
                 @ replicate 20 (of_char CHR ''b'') :: jsstring) \<and>
   tokenSplit latin1Engine
              (replicate 20 (of_char CHR ''b'') @ 0x20 # replicate 90 (of_char CHR ''a'')
               @ replicate 20 (of_char CHR ''b''))
              (0x20 # replicate 90 (of_char CHR ''a'')) \<and>
   120 < length (replicate 121 (of_char CHR ''a'') :: jsstring) \<and>
   tokenSplit latin1Engine (replicate 121 (of_char CHR ''a''))
              (replicate 121 (of_char CHR ''a'')) \<and>
   120 < length (replicate 60 0x130 @ utf16 ''9:41'' @ replicate 200 (of_char CHR ''x'')) \<and>
   indexOf (toLowerCase latin1Engine
              (replicate 60 0x130 @ utf16 ''9:41'' @ replicate 200 (of_char CHR ''x'')))
           (toLowerCase latin1Engine (utf16 ''9:41'')) = 120 \<and>
   firstOccurrence latin1Engine
     (replicate 60 0x130 @ utf16 ''9:41'' @ replicate 200 (of_char CHR ''x''))
     (utf16 ''9:41'') = Some 60 \<and>
   truncationWindow (replicate 60 0x130 @ utf16 ''9:41'' @ replicate 200 (of_char CHR ''x''))
     120 4 = (62, 182) \<and>
   tokenSplit latin1Engine
     (replicate 60 0x130 @ utf16 ''9:41'' @ replicate 200 (of_char CHR ''x''))
     (utf16 ''9:41'')"
proof -
  define q1 :: jsstring where
    "q1 = replicate 20 (of_char CHR ''b'') @ 0x20 # replicate 90 (of_char CHR ''a'')
          @ replicate 20 (of_char CHR ''b'')"
  define t1 :: jsstring where "t1 = 0x20 # replicate 90 (of_char CHR ''a'')"
  define q3 :: jsstring where
    "q3 = replicate 60 0x130 @ utf16 ''9:41'' @ replicate 200 (of_char CHR ''x'')"
  have "0x130 \<notin> set q1" "0x130 \<notin> set t1" by (simp_all add: q1_def t1_def)
  then have "foldsInPlace latin1Engine lowerOne q1 t1" by (rule latin1_folds_in_place)
  from tokenSplit_in_place[OF this]
  have s1: "tokenSplit latin1Engine q1 t1 =
              (let ti = indexOf (map lowerOne q1) (map lowerOne t1);
                   (s1, e1) = truncationWindow q1 ti (int (length t1))
               in ti \<noteq> -1 \<and>
                  ((ti < s1 \<and> s1 < ti + int (length t1)) \<or>
                   (ti < e1 \<and> e1 < ti + int (length t1))))" .
  have "let ti = indexOf (map lowerOne q1) (map lowerOne t1);
            (s1, e1) = truncationWindow q1 ti (int (length t1))
        in ti \<noteq> -1 \<and>
           ((ti < s1 \<and> s1 < ti + int (length t1)) \<or> (ti < e1 \<and> e1 < ti + int (length t1)))"
    unfolding q1_def t1_def by code_simp
  with s1 have first: "tokenSplit latin1Engine q1 t1" by simp
  have second: "tokenSplit latin1Engine (replicate 121 (of_char CHR ''a''))
                  (replicate 121 (of_char CHR ''a''))"
    by code_simp
  have len3: "length q3 = 264" by (simp add: q3_def length_utf16)
  have ti3: "indexOf (toLowerCase latin1Engine q3) (toLowerCase latin1Engine (utf16 ''9:41''))
               = 120"
    unfolding q3_def by code_simp
  have p3: "firstOccurrence latin1Engine q3 (utf16 ''9:41'') = Some 60"
    unfolding q3_def by code_simp
  have "0x20 \<notin> set q3" by (simp add: q3_def utf16_def)
  then have "truncationWindow q3 120 4 = centredWindow (int (length q3)) 120 4"
    by (rule truncationWindow_no_space)
  then have w3: "truncationWindow q3 120 4 = (62, 182)"
    by (simp add: len3 centredWindow_def Let_def)
  have third: "tokenSplit latin1Engine q3 (utf16 ''9:41'')"
    by (simp add: tokenSplit_def Let_def ti3 p3 w3 length_utf16)
  have "120 < length q1" by (simp add: q1_def)
  moreover have "120 < length (replicate 121 (of_char CHR ''a'') :: jsstring)" by simp
  moreover have "120 < length q3" by (simp add: len3)
  ultimately show ?thesis
    using first second third ti3 p3 w3 unfolding q1_def t1_def q3_def by blast
qed

text \<open>
  C4 (amended). Every quote text that fits the budget of 120 characters is returned
  unchanged, whatever the token; in particular the quote of the scenario, which has 87
  characters, with the token \<open>9:41\<close>.
\<close>

theorem smartTruncateQuote_fits_whole:
  "(length quoteText \<le> 120 \<longrightarrow> smartTruncateQuote js cfg quoteText token = quoteText) \<and>
   length (utf16 ''A man who dares to waste one hour of time has not discovered the value of life at 09:41'') = 87 \<and>
   smartTruncateQuote js cfg (utf16 ''A man who dares to waste one hour of time has not discovered the value of life at 09:41'') (utf16 ''9:41'') = utf16 ''A man who dares to waste one hour of time has not discovered the value of life at 09:41''"
  by (simp add: smartTruncateQuote_def length_utf16)

text \<open>
  C4, witness: a text of exactly 120 characters.
\<close>

theorem smartTruncateQuote_fits_whole_witness:
  "length (replicate 120 (of_char CHR ''x'') :: jsstring) \<le> 120 \<and>
   smartTruncateQuote latin1Engine defaultConfig (replicate 120 (of_char CHR ''x''))
     (utf16 ''9:41'') = replicate 120 (of_char CHR ''x'')"
  using smartTruncateQuote_fits_whole[of "replicate 120 (of_char CHR ''x'')" latin1Engine
          defaultConfig "utf16 ''9:41''"]
  by simp

text \<open>
  C4 as stated says that the quote of the scenario has 97 characters; it has 87.
\<close>

theorem scenario_quote_length_counterexample:
  "\<not> (length (utf16 ''A man who dares to waste one hour of time has not discovered the value of life at 09:41'') = 97 \<and>
      smartTruncateQuote latin1Engine defaultConfig (utf16 ''A man who dares to waste one hour of time has not discovered the value of life at 09:41'') (utf16 ''9:41'') = utf16 ''A man who dares to waste one hour of time has not discovered the value of life at 09:41'')"
  by (simp add: length_utf16)

text \<open>
  C9. The budget of \<open>smartTruncateQuote\<close> is the constant 120 and not the option
  \<open>maxQuoteLength\<close>, which is configured as 108. Every text of 109 to 120 code units is
  returned unchanged. Every text of more than 120 code units is cut: the result is a
  window of at most 120 code units of the text, with an ellipsis marker at each end at
  which the text goes on, and at least at one end. Changing \<open>maxQuoteLength\<close> changes no
  result.
\<close>

theorem smartTruncateQuote_ignores_maxQuoteLength:
  "maxQuoteLength defaultConfig = 108 \<and>
   (109 \<le> length quoteText \<and> length quoteText \<le> 120
      \<longrightarrow> smartTruncateQuote js cfg quoteText token = quoteText) \<and>
   (120 < length quoteText
      \<longrightarrow> (\<exists>startIndex endIndex.
             0 \<le> startIndex \<and> startIndex \<le> endIndex \<and> endIndex \<le> int (length quoteText) \<and>
             endIndex - startIndex \<le> 120 \<and>
             (0 < startIndex \<or> endIndex < int (length quoteText)) \<and>
             smartTruncateQuote js cfg quoteText token =
               (if 0 < startIndex then utf16 ''...'' else [])
               @ substring quoteText startIndex endIndex
               @ (if endIndex < int (length quoteText) then utf16 ''...'' else []))) \<and>
   smartTruncateQuote js (cfg\<lparr>maxQuoteLength := n\<rparr>) quoteText token
     = smartTruncateQuote js cfg quoteText token"
proof (intro conjI impI)
  show "maxQuoteLength defaultConfig = 108" by (simp add: defaultConfig_def)
  show "smartTruncateQuote js cfg quoteText token = quoteText"
    if "109 \<le> length quoteText \<and> length quoteText \<le> 120"
    using that by (simp add: smartTruncateQuote_def)
  show "\<exists>startIndex endIndex.
          0 \<le> startIndex \<and> startIndex \<le> endIndex \<and> endIndex \<le> int (length quoteText) \<and>
          endIndex - startIndex \<le> 120 \<and>
          (0 < startIndex \<or> endIndex < int (length quoteText)) \<and>
          smartTruncateQuote js cfg quoteText token =
            (if 0 < startIndex then utf16 ''...'' else [])
            @ substring quoteText startIndex endIndex
            @ (if endIndex < int (length quoteText) then utf16 ''...'' else [])"
    if "120 < length quoteText"
    using that by (rule smartTruncateQuote_window)
  show "smartTruncateQuote js (cfg\<lparr>maxQuoteLength := n\<rparr>) quoteText token
          = smartTruncateQuote js cfg quoteText token"
    by (simp add: smartTruncateQuote_def)
qed

text \<open>
  C9, witness: a text of 115 characters, longer than \<open>maxQuoteLength\<close>, is returned
  unchanged, and a text of 121 characters is cut to its first 117 characters and an
  ellipsis marker.
\<close>

theorem smartTruncateQuote_ignores_maxQuoteLength_witness:
  "109 \<le> length (replicate 115 (of_char CHR ''x'') :: jsstring) \<and>
   length (replicate 115 (of_char CHR ''x'') :: jsstring) \<le> 120 \<and>
   maxQuoteLength defaultConfig < int (length (replicate 115 (of_char CHR ''x'') :: jsstring)) \<and>
   smartTruncateQuote latin1Engine defaultConfig (replicate 115 (of_char CHR ''x''))
     (utf16 ''9:41'') = replicate 115 (of_char CHR ''x'') \<and>
   120 < length (replicate 121 (of_char CHR ''x'') :: jsstring) \<and>
   (\<exists>startIndex endIndex.
      0 \<le> startIndex \<and> startIndex \<le> endIndex \<and> endIndex \<le> 121 \<and>
      endIndex - startIndex \<le> 120 \<and> (0 < startIndex \<or> endIndex < 121) \<and>
      smartTruncateQuote latin1Engine defaultConfig (replicate 121 (of_char CHR ''x''))
        (utf16 ''9:41'') =
        (if 0 < startIndex then utf16 ''...'' else [])
        @ substring (replicate 121 (of_char CHR ''x'')) startIndex endIndex
        @ (if endIndex < 121 then utf16 ''...'' else [])) \<and>
   smartTruncateQuote latin1Engine defaultConfig (replicate 121 (of_char CHR ''x''))
     (utf16 ''9:41'') = replicate 117 (of_char CHR ''x'') @ utf16 ''...''"
proof -
  have a: "smartTruncateQuote latin1Engine defaultConfig (replicate 121 (of_char CHR ''x''))
             (utf16 ''9:41'') = replicate 117 (of_char CHR ''x'') @ utf16 ''...''"
    by code_simp
  from smartTruncateQuote_ignores_maxQuoteLength[of "replicate 115 (of_char CHR ''x'')"
         latin1Engine defaultConfig "utf16 ''9:41''"]
  have b: "smartTruncateQuote latin1Engine defaultConfig (replicate 115 (of_char CHR ''x''))
             (utf16 ''9:41'') = replicate 115 (of_char CHR ''x'')"
    by simp
  from smartTruncateQuote_ignores_maxQuoteLength[of "replicate 121 (of_char CHR ''x'')"
         latin1Engine defaultConfig "utf16 ''9:41''"]
  have c: "\<exists>startIndex endIndex.
      0 \<le> startIndex \<and> startIndex \<le> endIndex \<and> endIndex \<le> 121 \<and>
      endIndex - startIndex \<le> 120 \<and> (0 < startIndex \<or> endIndex < 121) \<and>
      smartTruncateQuote latin1Engine defaultConfig (replicate 121 (of_char CHR ''x''))
        (utf16 ''9:41'') =
        (if 0 < startIndex then utf16 ''...'' else [])
        @ substring (replicate 121 (of_char CHR ''x'')) startIndex endIndex
        @ (if endIndex < 121 then utf16 ''...'' else [])"
    by simp
  show ?thesis using a b c by (simp add: defaultConfig_def)
qed


section \<open>Claims about resolving the time\<close>

text \<open>
  C2. With web time enabled and an answer that carries a time, \<open>getCurrentTime\<close> takes the
  absolute difference of the two minutes of the day (\<open>hours * 60 + minutes\<close>), multiplies
  it by 60 and returns the network time exactly when the product exceeds
  \<open>maxDiscrepancySeconds\<close>, the local time otherwise. With a threshold of 30, local
  12:00:00 and network 12:00:20 give the local time, local 12:00:00 and network 12:05:00
  give the network time.
\<close>

theorem getCurrentTime_discrepancy:
  "(useWebTime (timeSync cfg) \<and> webTimeResponse w (webTimeRequests s) = WebTimeAnswer status (Some webTime)
      \<longrightarrow> fst (getCurrentTime cfg w s)
            = (if \<bar>(int (hours (systemClock w (clockReads s))) * 60
                      + int (minutes (systemClock w (clockReads s))))
                    - (int (hours webTime) * 60 + int (minutes webTime))\<bar> * 60
                  > maxDiscrepancySeconds (timeSync cfg)
               then Inr webTime else Inr (systemClock w (clockReads s)))) \<and>
   fst (getCurrentTime (webTimeConfig 30 fallback)
          (steadyWorld \<lparr>hours = 12, minutes = 0, seconds = 0\<rparr>
                       (WebTimeAnswer 200 (Some \<lparr>hours = 12, minutes = 0, seconds = 20\<rparr>)) dataset) s)
     = Inr \<lparr>hours = 12, minutes = 0, seconds = 0\<rparr> \<and>
   fst (getCurrentTime (webTimeConfig 30 fallback)
          (steadyWorld \<lparr>hours = 12, minutes = 0, seconds = 0\<rparr>
                       (WebTimeAnswer 200 (Some \<lparr>hours = 12, minutes = 5, seconds = 0\<rparr>)) dataset) s)
     = Inr \<lparr>hours = 12, minutes = 5, seconds = 0\<rparr>"
  by (simp add: getCurrentTime_def discrepancyMinutes_def Let_def webTimeConfig_def
        steadyWorld_def)

text \<open>
  C2, witness: local 08:15:07 and network 08:17:02 with a threshold of 30 seconds.
\<close>

theorem getCurrentTime_discrepancy_witness:
  "useWebTime (timeSync (webTimeConfig 30 True)) \<and>
   webTimeResponse (steadyWorld \<lparr>hours = 8, minutes = 15, seconds = 7\<rparr>
                      (WebTimeAnswer 200 (Some \<lparr>hours = 8, minutes = 17, seconds = 2\<rparr>)) DatasetFetchRejected)
                   (webTimeRequests (startup 0))
     = WebTimeAnswer 200 (Some \<lparr>hours = 8, minutes = 17, seconds = 2\<rparr>) \<and>
   fst (getCurrentTime (webTimeConfig 30 True)
          (steadyWorld \<lparr>hours = 8, minutes = 15, seconds = 7\<rparr>
             (WebTimeAnswer 200 (Some \<lparr>hours = 8, minutes = 17, seconds = 2\<rparr>)) DatasetFetchRejected)
          (startup 0))
     = Inr \<lparr>hours = 8, minutes = 17, seconds = 2\<rparr>"
  using getCurrentTime_discrepancy[where cfg = "webTimeConfig 30 True"
          and w = "steadyWorld \<lparr>hours = 8, minutes = 15, seconds = 7\<rparr>
             (WebTimeAnswer 200 (Some \<lparr>hours = 8, minutes = 17, seconds = 2\<rparr>)) DatasetFetchRejected"
          and s = "startup 0" and status = 200
          and webTime = "\<lparr>hours = 8, minutes = 17, seconds = 2\<rparr>"]
  by (simp add: webTimeConfig_def steadyWorld_def startup_def)

text \<open>
  What \<open>getCurrentTime\<close> returns, by the outcome of the request. It fails, and then with
  \<open>TimeUnavailable\<close>, exactly when web time is enabled, the request is rejected and the
  fallback to the system time is disabled. With web time disabled it returns the reading of
  the local clock and sends no request; when the request is rejected and the fallback is
  enabled it returns the local clock, read again. An answer without a date that parses gives
  the first reading of the local clock, whatever the status of the answer and whether or
  not the fallback is enabled.
\<close>

lemma getCurrentTime_outcomes:
  "(isl (fst (getCurrentTime cfg w s))
      \<longleftrightarrow> useWebTime (timeSync cfg) \<and> webTimeResponse w (webTimeRequests s) = WebTimeRejected
           \<and> \<not> fallbackToSystemTime (timeSync cfg)) \<and>
   (fst (getCurrentTime cfg w s) = Inl TimeUnavailable
      \<longleftrightarrow> useWebTime (timeSync cfg) \<and> webTimeResponse w (webTimeRequests s) = WebTimeRejected
           \<and> \<not> fallbackToSystemTime (timeSync cfg)) \<and>
   (\<not> useWebTime (timeSync cfg)
      \<longrightarrow> fst (getCurrentTime cfg w s) = Inr (systemClock w (clockReads s))
          \<and> webTimeRequests (snd (getCurrentTime cfg w s)) = webTimeRequests s) \<and>
   (useWebTime (timeSync cfg) \<and> webTimeResponse w (webTimeRequests s) = WebTimeRejected
      \<and> fallbackToSystemTime (timeSync cfg)
      \<longrightarrow> fst (getCurrentTime cfg w s) = Inr (systemClock w (clockReads s + 1))) \<and>
   (useWebTime (timeSync cfg) \<and> webTimeResponse w (webTimeRequests s) = WebTimeAnswer status None
      \<longrightarrow> fst (getCurrentTime cfg w s) = Inr (systemClock w (clockReads s)))"
  by (simp add: getCurrentTime_def Let_def split: web_time_response.split option.split)

text \<open>
  C3. Where the claim holds: with web time disabled (the default configuration)
  \<open>getCurrentTime\<close> returns the local clock and sends no request; when the request is
  rejected it returns the local clock with the fallback enabled and fails with
  \<open>TimeUnavailable\<close> with the fallback disabled. Where the script departs from it: web
  time is enabled, the fallback is disabled, and the web time API answers with the status
  500 and a body without a date. The network source has failed, and \<open>getCurrentTime\<close>
  returns the time of the local clock, 07:30:12, instead of failing with
  \<open>TimeUnavailable\<close>; the request has been sent. The status is not looked at either: an
  answer with the status 500 whose body carries the time 07:40:00 is taken as the time.
\<close>

theorem getCurrentTime_answer_without_date:
  "fst (getCurrentTime defaultConfig
          (steadyWorld \<lparr>hours = 7, minutes = 30, seconds = 12\<rparr> WebTimeRejected
             DatasetFetchRejected)
          (startup 0))
     = Inr \<lparr>hours = 7, minutes = 30, seconds = 12\<rparr> \<and>
   webTimeRequests (snd (getCurrentTime defaultConfig
          (steadyWorld \<lparr>hours = 7, minutes = 30, seconds = 12\<rparr> WebTimeRejected
             DatasetFetchRejected)
          (startup 0))) = 0 \<and>
   fst (getCurrentTime (webTimeConfig 30 True)
          (steadyWorld \<lparr>hours = 7, minutes = 30, seconds = 12\<rparr> WebTimeRejected
             DatasetFetchRejected)
          (startup 0))
     = Inr \<lparr>hours = 7, minutes = 30, seconds = 12\<rparr> \<and>
   fst (getCurrentTime (webTimeConfig 30 False)
          (steadyWorld \<lparr>hours = 7, minutes = 30, seconds = 12\<rparr> WebTimeRejected
             DatasetFetchRejected)
          (startup 0))
     = Inl TimeUnavailable \<and>
   fst (getCurrentTime (webTimeConfig 30 False)
          (steadyWorld \<lparr>hours = 7, minutes = 30, seconds = 12\<rparr> (WebTimeAnswer 500 None)
             DatasetFetchRejected)
          (startup 0))
     = Inr \<lparr>hours = 7, minutes = 30, seconds = 12\<rparr> \<and>
   webTimeRequests (snd (getCurrentTime (webTimeConfig 30 False)
          (steadyWorld \<lparr>hours = 7, minutes = 30, seconds = 12\<rparr> (WebTimeAnswer 500 None)
             DatasetFetchRejected)
          (startup 0))) = 1 \<and>
   fst (getCurrentTime (webTimeConfig 30 False)
          (steadyWorld \<lparr>hours = 7, minutes = 30, seconds = 12\<rparr>
             (WebTimeAnswer 500 (Some \<lparr>hours = 7, minutes = 40, seconds = 0\<rparr>))
             DatasetFetchRejected)
          (startup 0))
     = Inr \<lparr>hours = 7, minutes = 40, seconds = 0\<rparr>"
  by (simp add: getCurrentTime_def discrepancyMinutes_def Let_def defaultConfig_def
        webTimeConfig_def steadyWorld_def startup_def)

lemma same_minute_of_day:
  fixes h h' m m' :: int
  assumes "h * 60 + m = h' * 60 + m'" and "0 \<le> m" and "m < 60" and "0 \<le> m'" and "m' < 60"
  shows "h = h' \<and> m = m'"
proof -
  have "\<not> h < h'" using assms by linarith
  moreover have "\<not> h' < h" using assms by linarith
  ultimately have "h = h'" by linarith
  then show ?thesis using assms(1) by simp
qed

lemma minutes_one_second_apart:
  fixes M S :: int
  assumes "\<bar>M * 60 + S\<bar> = 1" and "-60 < S" and "S < 60" and "M \<noteq> 0"
  shows "\<bar>M\<bar> = 1"
proof -
  have "\<not> 2 \<le> M" using assms by linarith
  moreover have "\<not> M \<le> -2" using assms by linarith
  ultimately show ?thesis using assms(4) by linarith
qed

lemma minutes_around_midnight:
  fixes M S :: int
  assumes "\<bar>M * 60 + S\<bar> = 86399" and "-60 < S" and "S < 60" and "\<bar>M\<bar> \<le> 1439"
  shows "\<bar>M\<bar> = 1439"
proof -
  have "\<not> (M \<le> 1438 \<and> -1438 \<le> M)" using assms by linarith
  then show ?thesis using assms(4) by linarith
qed

lemma straddle_discrepancy:
  assumes "oneSecondApart a b"
    and "hours a \<noteq> hours b \<or> minutes a \<noteq> minutes b"
  shows "discrepancyMinutes a b * 60
           = (if \<bar>secondOfDay a - secondOfDay b\<bar> = 1 then 60 else 86340)"
proof -
  define ma where "ma = int (hours a) * 60 + int (minutes a)"
  define mb where "mb = int (hours b) * 60 + int (minutes b)"
  define sa where "sa = int (seconds a)"
  define sb where "sb = int (seconds b)"
  have va: "0 \<le> sa" "sa < 60" "0 \<le> ma" "ma \<le> 1439"
    using assms(1) by (auto simp: oneSecondApart_def timeOfDay_def sa_def ma_def)
  have vb: "0 \<le> sb" "sb < 60" "0 \<le> mb" "mb \<le> 1439"
    using assms(1) by (auto simp: oneSecondApart_def timeOfDay_def sb_def mb_def)
  have ha: "int (minutes a) < 60" "int (minutes b) < 60"
    using assms(1) by (auto simp: oneSecondApart_def timeOfDay_def)
  have ne: "ma - mb \<noteq> 0"
  proof
    assume "ma - mb = 0"
    then have "int (hours a) * 60 + int (minutes a) = int (hours b) * 60 + int (minutes b)"
      by (simp add: ma_def mb_def)
    from same_minute_of_day[OF this] ha
    have "hours a = hours b \<and> minutes a = minutes b" by simp
    with assms(2) show False by simp
  qed
  have sod: "secondOfDay a - secondOfDay b = (ma - mb) * 60 + (sa - sb)"
    by (simp add: secondOfDay_def ma_def mb_def sa_def sb_def algebra_simps)
  have d: "discrepancyMinutes a b = \<bar>ma - mb\<bar>"
    by (simp add: discrepancyMinutes_def Let_def ma_def mb_def)
  have S: "-60 < sa - sb" "sa - sb < 60" using va vb by linarith+
  have M: "\<bar>ma - mb\<bar> \<le> 1439" using va vb by linarith
  from assms(1) have "\<bar>(ma - mb) * 60 + (sa - sb)\<bar> = 1 \<or> \<bar>(ma - mb) * 60 + (sa - sb)\<bar> = 86399"
    by (simp add: oneSecondApart_def sod)
  then show ?thesis
  proof
    assume one: "\<bar>(ma - mb) * 60 + (sa - sb)\<bar> = 1"
    from minutes_one_second_apart[OF one S ne] show ?thesis using one by (simp add: d sod)
  next
    assume far: "\<bar>(ma - mb) * 60 + (sa - sb)\<bar> = 86399"
    from minutes_around_midnight[OF far S M] show ?thesis using far by (simp add: d sod)
  qed
qed


text \<open>
  C10 (amended). \<open>getCurrentTime\<close> compares the two sources by the minute. When the local
  and the network time have the same hours and minutes and the threshold is not negative,
  the local time is returned, however far apart the seconds are. When the two times are one
  second apart and in different minutes, the discrepancy is 60 seconds if they lie on the
  same day and 86340 seconds if midnight lies between them; in both cases the network time
  is returned for every threshold below 60.
\<close>

theorem getCurrentTime_minute_granularity:
  "(useWebTime (timeSync cfg) \<and> webTimeResponse w (webTimeRequests s) = WebTimeAnswer status (Some webTime)
      \<and> hours webTime = hours (systemClock w (clockReads s))
      \<and> minutes webTime = minutes (systemClock w (clockReads s))
      \<and> 0 \<le> maxDiscrepancySeconds (timeSync cfg)
      \<longrightarrow> fst (getCurrentTime cfg w s) = Inr (systemClock w (clockReads s))) \<and>
   (useWebTime (timeSync cfg) \<and> webTimeResponse w (webTimeRequests s) = WebTimeAnswer status (Some webTime)
      \<and> oneSecondApart (systemClock w (clockReads s)) webTime
      \<and> (hours webTime \<noteq> hours (systemClock w (clockReads s))
           \<or> minutes webTime \<noteq> minutes (systemClock w (clockReads s)))
      \<longrightarrow> discrepancyMinutes (systemClock w (clockReads s)) webTime * 60
            = (if \<bar>secondOfDay (systemClock w (clockReads s)) - secondOfDay webTime\<bar> = 1
               then 60 else 86340)
          \<and> (maxDiscrepancySeconds (timeSync cfg) < 60
                \<longrightarrow> fst (getCurrentTime cfg w s) = Inr webTime))"
proof (intro conjI impI)
  assume "useWebTime (timeSync cfg) \<and> webTimeResponse w (webTimeRequests s) = WebTimeAnswer status (Some webTime)
      \<and> hours webTime = hours (systemClock w (clockReads s))
      \<and> minutes webTime = minutes (systemClock w (clockReads s))
      \<and> 0 \<le> maxDiscrepancySeconds (timeSync cfg)"
  then show "fst (getCurrentTime cfg w s) = Inr (systemClock w (clockReads s))"
    by (simp add: getCurrentTime_def discrepancyMinutes_def Let_def)
next
  assume a: "useWebTime (timeSync cfg) \<and> webTimeResponse w (webTimeRequests s) = WebTimeAnswer status (Some webTime)
      \<and> oneSecondApart (systemClock w (clockReads s)) webTime
      \<and> (hours webTime \<noteq> hours (systemClock w (clockReads s))
           \<or> minutes webTime \<noteq> minutes (systemClock w (clockReads s)))"
  then show d: "discrepancyMinutes (systemClock w (clockReads s)) webTime * 60
            = (if \<bar>secondOfDay (systemClock w (clockReads s)) - secondOfDay webTime\<bar> = 1
               then 60 else 86340)"
    using straddle_discrepancy[of "systemClock w (clockReads s)" webTime] by auto
  assume "maxDiscrepancySeconds (timeSync cfg) < 60"
  then have "discrepancyMinutes (systemClock w (clockReads s)) webTime * 60
               > maxDiscrepancySeconds (timeSync cfg)"
    using d by (simp split: if_splits)
  then show "fst (getCurrentTime cfg w s) = Inr webTime"
    using a by (simp add: getCurrentTime_def Let_def)
qed


text \<open>
  C10, witness: 12:00:01 against 12:00:58, and 12:00:59 against 12:01:00, with a threshold
  of 30 seconds.
\<close>

theorem getCurrentTime_minute_granularity_witness:
  "fst (getCurrentTime (webTimeConfig 30 True)
          (steadyWorld \<lparr>hours = 12, minutes = 0, seconds = 1\<rparr>
             (WebTimeAnswer 200 (Some \<lparr>hours = 12, minutes = 0, seconds = 58\<rparr>)) DatasetFetchRejected)
          (startup 0))
     = Inr \<lparr>hours = 12, minutes = 0, seconds = 1\<rparr> \<and>
   oneSecondApart \<lparr>hours = 12, minutes = 0, seconds = 59\<rparr> \<lparr>hours = 12, minutes = 1, seconds = 0\<rparr> \<and>
   discrepancyMinutes \<lparr>hours = 12, minutes = 0, seconds = 59\<rparr>
                      \<lparr>hours = 12, minutes = 1, seconds = 0\<rparr> * 60 = 60 \<and>
   fst (getCurrentTime (webTimeConfig 30 True)
          (steadyWorld \<lparr>hours = 12, minutes = 0, seconds = 59\<rparr>
             (WebTimeAnswer 200 (Some \<lparr>hours = 12, minutes = 1, seconds = 0\<rparr>)) DatasetFetchRejected)
          (startup 0))
     = Inr \<lparr>hours = 12, minutes = 1, seconds = 0\<rparr>"
  using getCurrentTime_minute_granularity[where cfg = "webTimeConfig 30 True"
          and w = "steadyWorld \<lparr>hours = 12, minutes = 0, seconds = 1\<rparr>
             (WebTimeAnswer 200 (Some \<lparr>hours = 12, minutes = 0, seconds = 58\<rparr>)) DatasetFetchRejected"
          and s = "startup 0" and status = 200
          and webTime = "\<lparr>hours = 12, minutes = 0, seconds = 58\<rparr>"]
        getCurrentTime_minute_granularity[where cfg = "webTimeConfig 30 True"
          and w = "steadyWorld \<lparr>hours = 12, minutes = 0, seconds = 59\<rparr>
             (WebTimeAnswer 200 (Some \<lparr>hours = 12, minutes = 1, seconds = 0\<rparr>)) DatasetFetchRejected"
          and s = "startup 0" and status = 200
          and webTime = "\<lparr>hours = 12, minutes = 1, seconds = 0\<rparr>"]
  by (simp add: webTimeConfig_def steadyWorld_def startup_def oneSecondApart_def
        timeOfDay_def secondOfDay_def)


text \<open>
  C10 as stated fails twice. With the threshold \<open>-1\<close>, local 12:00:00 and network
  12:00:20 (the same minute) give the network time, because the discrepancy 0 exceeds the
  threshold. Local 23:59:59 and network 00:00:00 are one second apart, and the discrepancy
  is 1439 minutes, 86340 seconds, not 60.
\<close>

theorem minute_granularity_counterexample:
  "fst (getCurrentTime (webTimeConfig (-1) True)
          (steadyWorld \<lparr>hours = 12, minutes = 0, seconds = 0\<rparr>
             (WebTimeAnswer 200 (Some \<lparr>hours = 12, minutes = 0, seconds = 20\<rparr>)) DatasetFetchRejected)
          (startup 0))
     \<noteq> Inr \<lparr>hours = 12, minutes = 0, seconds = 0\<rparr> \<and>
   oneSecondApart \<lparr>hours = 23, minutes = 59, seconds = 59\<rparr> \<lparr>hours = 0, minutes = 0, seconds = 0\<rparr> \<and>
   discrepancyMinutes \<lparr>hours = 23, minutes = 59, seconds = 59\<rparr>
                      \<lparr>hours = 0, minutes = 0, seconds = 0\<rparr> * 60 \<noteq> 60"
  by (simp add: getCurrentTime_def discrepancyMinutes_def Let_def webTimeConfig_def
        steadyWorld_def startup_def oneSecondApart_def timeOfDay_def secondOfDay_def)



section \<open>Claims about the lookup\<close>

lemma getCurrentTime_quotes: "quotes (snd (getCurrentTime cfg w s)) = quotes s"
  by (simp add: getCurrentTime_def Let_def split: web_time_response.split option.split)

lemma digit_zero: "digit 0 = of_char CHR ''0''"
  by (simp add: digit_def)

lemma decimal_two_digits:
  assumes "n < 100"
  shows "padStart2 (decimal n) = [digit (n div 10), digit (n mod 10)]"
proof (cases "n < 10")
  case True
  then have "decimal n = [digit n]" by (subst decimal.simps) simp
  then show ?thesis using True by (simp add: padStart2_def digit_zero)
next
  case False
  have "n div 10 < 10" using assms by simp
  then have "decimal (n div 10) = [digit (n div 10)]" by (subst decimal.simps) simp
  then have "decimal n = [digit (n div 10), digit (n mod 10)]" using False
    by (subst decimal.simps) simp
  then show ?thesis by (simp add: padStart2_def)
qed

text \<open>
  C5. When the time is resolved, \<open>findQuoteForCurrentTime\<close> never fails; it returns none
  exactly when no record of the dataset has the time key \<open>HH:MM\<close> of the resolved time,
  and it returns a record exactly when that record has the key and no record before it in
  the dataset has it: the first match wins and nothing but an equal key matches. The key is
  the two digits of the hours, a colon and the two digits of the minutes.
\<close>

theorem findQuoteForCurrentTime_exact:
  assumes "fst (getCurrentTime cfg w s) = Inr t"
  shows "(\<exists>r. fst (findQuoteForCurrentTime cfg w s) = Inr r) \<and>
         (fst (findQuoteForCurrentTime cfg w s) = Inr None
            \<longleftrightarrow> (\<forall>q \<in> set (quotes s). time q \<noteq> formatTime t)) \<and>
         (fst (findQuoteForCurrentTime cfg w s) = Inr (Some q)
            \<longleftrightarrow> (\<exists>i < length (quotes s). quotes s ! i = q \<and> time q = formatTime t \<and>
                    (\<forall>j < i. time (quotes s ! j) \<noteq> formatTime t))) \<and>
         (hours t < 24 \<and> minutes t < 60 \<longrightarrow>
            formatTime t = [digit (hours t div 10), digit (hours t mod 10), of_char CHR '':'',
                            digit (minutes t div 10), digit (minutes t mod 10)])"
proof -
  obtain s' where g: "getCurrentTime cfg w s = (Inr t, s')"
    using assms by (cases "getCurrentTime cfg w s") simp
  have q: "quotes s' = quotes s" using getCurrentTime_quotes[of cfg w s] g by simp
  define r where "r = find (\<lambda>q. time q = formatTime t) (quotes s)"
  have f: "fst (findQuoteForCurrentTime cfg w s) = Inr r"
    by (simp add: findQuoteForCurrentTime_def g q r_def Let_def)
  have n: "r = None \<longleftrightarrow> (\<forall>q \<in> set (quotes s). time q \<noteq> formatTime t)"
    by (auto simp: r_def find_None_iff)
  have sm: "r = Some q \<longleftrightarrow>
              (\<exists>i < length (quotes s). quotes s ! i = q \<and> time q = formatTime t \<and>
                 (\<forall>j < i. time (quotes s ! j) \<noteq> formatTime t))"
    unfolding r_def find_Some_iff by auto
  have fmt: "hours t < 24 \<and> minutes t < 60 \<longrightarrow>
              formatTime t = [digit (hours t div 10), digit (hours t mod 10), of_char CHR '':'',
                              digit (minutes t div 10), digit (minutes t mod 10)]"
    by (simp add: formatTime_def decimal_two_digits utf16_def)
  from f n sm fmt show ?thesis by simp
qed


text \<open>
  C5, witness: at 09:41 a dataset with one record for 09:40 and two for 09:41 gives the
  first record for 09:41; at 09:42 a dataset with a record for 09:41 only gives none.
\<close>

theorem findQuoteForCurrentTime_exact_witness:
  "fst (getCurrentTime defaultConfig
          (steadyWorld \<lparr>hours = 9, minutes = 41, seconds = 30\<rparr> WebTimeRejected DatasetFetchRejected)
          ((startup 0)\<lparr>quotes :=
             [\<lparr>time = utf16 ''09:40'', quote = utf16 ''twenty to ten'', timeString = utf16 ''twenty to ten'',
               title = utf16 ''A'', author = utf16 ''B''\<rparr>,
              \<lparr>time = utf16 ''09:41'', quote = utf16 ''It was 9:41.'', timeString = utf16 ''9:41'',
               title = utf16 ''C'', author = utf16 ''D''\<rparr>,
              \<lparr>time = utf16 ''09:41'', quote = utf16 ''Again 9:41.'', timeString = utf16 ''9:41'',
               title = utf16 ''E'', author = utf16 ''F''\<rparr>]\<rparr>))
     = Inr \<lparr>hours = 9, minutes = 41, seconds = 30\<rparr> \<and>
   formatTime \<lparr>hours = 9, minutes = 41, seconds = 30\<rparr> = utf16 ''09:41'' \<and>
   fst (findQuoteForCurrentTime defaultConfig
          (steadyWorld \<lparr>hours = 9, minutes = 41, seconds = 30\<rparr> WebTimeRejected DatasetFetchRejected)
          ((startup 0)\<lparr>quotes :=
             [\<lparr>time = utf16 ''09:40'', quote = utf16 ''twenty to ten'', timeString = utf16 ''twenty to ten'',
               title = utf16 ''A'', author = utf16 ''B''\<rparr>,
              \<lparr>time = utf16 ''09:41'', quote = utf16 ''It was 9:41.'', timeString = utf16 ''9:41'',
               title = utf16 ''C'', author = utf16 ''D''\<rparr>,
              \<lparr>time = utf16 ''09:41'', quote = utf16 ''Again 9:41.'', timeString = utf16 ''9:41'',
               title = utf16 ''E'', author = utf16 ''F''\<rparr>]\<rparr>))
     = Inr (Some \<lparr>time = utf16 ''09:41'', quote = utf16 ''It was 9:41.'', timeString = utf16 ''9:41'',
                   title = utf16 ''C'', author = utf16 ''D''\<rparr>) \<and>
   fst (findQuoteForCurrentTime defaultConfig
          (steadyWorld \<lparr>hours = 9, minutes = 42, seconds = 0\<rparr> WebTimeRejected DatasetFetchRejected)
          ((startup 0)\<lparr>quotes :=
             [\<lparr>time = utf16 ''09:41'', quote = utf16 ''It was 9:41.'', timeString = utf16 ''9:41'',
               title = utf16 ''C'', author = utf16 ''D''\<rparr>]\<rparr>))
     = Inr None"
proof -
  let ?w = "steadyWorld \<lparr>hours = 9, minutes = 41, seconds = 30\<rparr> WebTimeRejected DatasetFetchRejected"
  let ?q1 = "\<lparr>time = utf16 ''09:41'', quote = utf16 ''It was 9:41.'', timeString = utf16 ''9:41'',
               title = utf16 ''C'', author = utf16 ''D''\<rparr>"
  let ?s = "(startup 0)\<lparr>quotes :=
             [\<lparr>time = utf16 ''09:40'', quote = utf16 ''twenty to ten'', timeString = utf16 ''twenty to ten'',
               title = utf16 ''A'', author = utf16 ''B''\<rparr>, ?q1,
              \<lparr>time = utf16 ''09:41'', quote = utf16 ''Again 9:41.'', timeString = utf16 ''9:41'',
               title = utf16 ''E'', author = utf16 ''F''\<rparr>]\<rparr>"
  let ?t = "\<lparr>hours = 9, minutes = 41, seconds = 30\<rparr>"
  let ?w2 = "steadyWorld \<lparr>hours = 9, minutes = 42, seconds = 0\<rparr> WebTimeRejected DatasetFetchRejected"
  let ?s2 = "(startup 0)\<lparr>quotes := [?q1]\<rparr>"
  let ?t2 = "\<lparr>hours = 9, minutes = 42, seconds = 0\<rparr>"
  have g: "fst (getCurrentTime defaultConfig ?w ?s) = Inr ?t"
    by (simp add: getCurrentTime_def defaultConfig_def steadyWorld_def startup_def)
  have k: "formatTime ?t = utf16 ''09:41''" by code_simp
  have g2: "fst (getCurrentTime defaultConfig ?w2 ?s2) = Inr ?t2"
    by (simp add: getCurrentTime_def defaultConfig_def steadyWorld_def startup_def)
  have k2: "formatTime ?t2 = utf16 ''09:42''" by code_simp
  have "\<exists>i < length (quotes ?s). quotes ?s ! i = ?q1 \<and> time ?q1 = formatTime ?t \<and>
          (\<forall>j < i. time (quotes ?s ! j) \<noteq> formatTime ?t)"
    by (rule exI[of _ 1]) (simp add: k utf16_def)
  with findQuoteForCurrentTime_exact[OF g, of ?q1]
  have a: "fst (findQuoteForCurrentTime defaultConfig ?w ?s) = Inr (Some ?q1)" by blast
  have "\<forall>q \<in> set (quotes ?s2). time q \<noteq> formatTime ?t2" by (simp add: k2 utf16_def)
  with findQuoteForCurrentTime_exact[OF g2, of ?q1]
  have b: "fst (findQuoteForCurrentTime defaultConfig ?w2 ?s2) = Inr None" by blast
  from g k a b show ?thesis by simp
qed


section \<open>What the page updates leave alone\<close>

lemma getCurrentTime_frame:
  "timers (snd (getCurrentTime cfg w s)) = timers s"
  "fired (snd (getCurrentTime cfg w s)) = fired s"
  "now (snd (getCurrentTime cfg w s)) = now s"
  by (simp_all add: getCurrentTime_def Let_def split: web_time_response.split option.split)

lemma updateDateTimeDisplay_frame:
  "timers (updateDateTimeDisplay cfg w s) = timers s"
  "fired (updateDateTimeDisplay cfg w s) = fired s"
  "now (updateDateTimeDisplay cfg w s) = now s"
proof -
  obtain r s' where g: "getCurrentTime cfg w s = (r, s')" by fastforce
  have f: "timers s' = timers s" "fired s' = fired s" "now s' = now s"
    using getCurrentTime_frame[of cfg w s] g by simp_all
  show "timers (updateDateTimeDisplay cfg w s) = timers s"
    by (cases r) (simp_all add: updateDateTimeDisplay_def g f)
  show "fired (updateDateTimeDisplay cfg w s) = fired s"
    by (cases r) (simp_all add: updateDateTimeDisplay_def g f)
  show "now (updateDateTimeDisplay cfg w s) = now s"
    by (cases r) (simp_all add: updateDateTimeDisplay_def g f)
qed

lemma updateWeatherDisplay_frame:
  "timers (updateWeatherDisplay cfg w s) = timers s"
  "fired (updateWeatherDisplay cfg w s) = fired s"
  "now (updateWeatherDisplay cfg w s) = now s"
  by (simp_all add: updateWeatherDisplay_def Let_def split: option.split prod.split)

lemma renderQuote_frame:
  "timers (renderQuote cfg w m s) = timers s"
  "fired (renderQuote cfg w m s) = fired s"
  "now (renderQuote cfg w m s) = now s"
proof -
  obtain r s' where g: "getCurrentTime cfg w s = (r, s')" by fastforce
  have f: "timers s' = timers s" "fired s' = fired s" "now s' = now s"
    using getCurrentTime_frame[of cfg w s] g by simp_all
  show "timers (renderQuote cfg w m s) = timers s"
    by (cases m; cases r) (simp_all add: renderQuote_def g f Let_def)
  show "fired (renderQuote cfg w m s) = fired s"
    by (cases m; cases r) (simp_all add: renderQuote_def g f Let_def)
  show "now (renderQuote cfg w m s) = now s"
    by (cases m; cases r) (simp_all add: renderQuote_def g f Let_def)
qed

lemma findQuoteForCurrentTime_frame:
  "timers (snd (findQuoteForCurrentTime cfg w s)) = timers s"
  "fired (snd (findQuoteForCurrentTime cfg w s)) = fired s"
  "now (snd (findQuoteForCurrentTime cfg w s)) = now s"
proof -
  obtain r s' where g: "getCurrentTime cfg w s = (r, s')" by fastforce
  have f: "timers s' = timers s" "fired s' = fired s" "now s' = now s"
    using getCurrentTime_frame[of cfg w s] g by simp_all
  show "timers (snd (findQuoteForCurrentTime cfg w s)) = timers s"
    by (cases r) (simp_all add: findQuoteForCurrentTime_def g f Let_def)
  show "fired (snd (findQuoteForCurrentTime cfg w s)) = fired s"
    by (cases r) (simp_all add: findQuoteForCurrentTime_def g f Let_def)
  show "now (snd (findQuoteForCurrentTime cfg w s)) = now s"
    by (cases r) (simp_all add: findQuoteForCurrentTime_def g f Let_def)
qed

lemma updateQuote_frame:
  "fired (snd (updateQuote cfg w s)) = fired s"
  "now (snd (updateQuote cfg w s)) = now s"
  "\<exists>extra. timers (snd (updateQuote cfg w s)) = timers s @ extra \<and>
      (\<forall>u \<in> set extra. now s \<le> fireAt u \<and> period u = None \<and> \<not> isRefresh (callback u))"
proof -
  obtain r s' where g: "findQuoteForCurrentTime cfg w s = (r, s')" by fastforce
  have f: "timers s' = timers s" "fired s' = fired s" "now s' = now s"
    using findQuoteForCurrentTime_frame[of cfg w s] g by simp_all
  note d = updateDateTimeDisplay_frame[of cfg w s']
  show "fired (snd (updateQuote cfg w s)) = fired s"
    by (cases r) (simp_all add: updateQuote_def g f d Let_def setTimeout_def)
  show "now (snd (updateQuote cfg w s)) = now s"
    by (cases r) (simp_all add: updateQuote_def g f d Let_def setTimeout_def)
  show "\<exists>extra. timers (snd (updateQuote cfg w s)) = timers s @ extra \<and>
      (\<forall>u \<in> set extra. now s \<le> fireAt u \<and> period u = None \<and> \<not> isRefresh (callback u))"
  proof (cases r)
    case (Inl e)
    then have "timers (snd (updateQuote cfg w s)) = timers s @ []"
      by (simp add: updateQuote_def g f)
    then show ?thesis by (intro exI[of _ "[]"]) simp
  next
    case (Inr m)
    show ?thesis
    proof (cases "\<not> present w QuoteElement \<or> \<not> present w AuthorElement")
      case True
      then have "timers (snd (updateQuote cfg w s)) = timers s @ []"
        using Inr by (auto simp add: updateQuote_def g f)
      then show ?thesis by (intro exI[of _ "[]"]) simp
    next
      case False
      then have "timers (snd (updateQuote cfg w s))
          = timers s @ [\<lparr>fireAt = now s + max 0 (fadeOutDuration cfg), period = None,
                         callback = RenderQuote m\<rparr>]"
        using Inr by (simp add: updateQuote_def g f d Let_def setTimeout_def)
      then show ?thesis
        by (intro exI[of _ "[\<lparr>fireAt = now s + max 0 (fadeOutDuration cfg), period = None,
                         callback = RenderQuote m\<rparr>]"]) (simp add: isRefresh_def)
    qed
  qed
qed



section \<open>The event loop\<close>

lemma runTask_frame:
  "fired (runTask cfg w cb s) = fired s"
  "now (runTask cfg w cb s) = now s"
  by (cases cb; simp add: runTask_def updateQuote_frame renderQuote_frame
        updateWeatherDisplay_frame setInterval_def)+

lemma runTask_timers:
  "\<exists>extra. timers (runTask cfg w cb s) = timers s @ extra \<and>
      (\<forall>u \<in> set extra. now s \<le> fireAt u \<and> (\<forall>p. period u = Some p \<longrightarrow> 0 < p)) \<and>
      filter (\<lambda>u. isRefresh (callback u)) extra
        = (if cb = StartMinuteUpdates
           then [\<lparr>fireAt = now s + 60000, period = Some 60000, callback = UpdateQuote\<rparr>]
           else [])"
proof -
  from updateQuote_frame(3)[of cfg w s] obtain ex where
    ex: "timers (snd (updateQuote cfg w s)) = timers s @ ex"
        "\<forall>u \<in> set ex. now s \<le> fireAt u \<and> period u = None \<and> \<not> isRefresh (callback u)"
    by blast
  have nf: "filter (\<lambda>u. isRefresh (callback u)) ex = []" using ex(2) by (simp add: filter_empty_conv)
  show ?thesis
  proof (cases cb)
    case UpdateQuote
    then have "timers (runTask cfg w cb s) = timers s @ ex" by (simp add: runTask_def ex)
    then show ?thesis using ex(2) nf UpdateQuote by (intro exI[of _ ex]) simp
  next
    case StartMinuteUpdates
    let ?iv = "\<lparr>fireAt = now s + 60000, period = Some 60000, callback = UpdateQuote\<rparr>"
    have "timers (runTask cfg w cb s) = timers s @ (ex @ [?iv])"
      using StartMinuteUpdates by (simp add: runTask_def setInterval_def ex updateQuote_frame)
    then show ?thesis using ex(2) nf StartMinuteUpdates
      by (intro exI[of _ "ex @ [?iv]"]) (simp add: isRefresh_def)
  next
    case (RenderQuote m)
    then have "timers (runTask cfg w cb s) = timers s @ []"
      by (simp add: runTask_def renderQuote_frame)
    then show ?thesis using RenderQuote by (intro exI[of _ "[]"]) simp
  next
    case UpdateWeatherDisplay
    then have "timers (runTask cfg w cb s) = timers s @ []"
      by (simp add: runTask_def updateWeatherDisplay_frame)
    then show ?thesis using UpdateWeatherDisplay by (intro exI[of _ "[]"]) simp
  next
    case KeepAwake
    then have "timers (runTask cfg w cb s) = timers s @ []" by (simp add: runTask_def)
    then show ?thesis using KeepAwake by (intro exI[of _ "[]"]) simp
  qed
qed

lemma earliest_member: "earliest ts = Some t \<Longrightarrow> t \<in> set ts"
  by (induction ts arbitrary: t) (auto split: option.splits if_splits)

lemma earliest_least: "earliest ts = Some t \<Longrightarrow> u \<in> set ts \<Longrightarrow> fireAt t \<le> fireAt u"
proof (induction ts arbitrary: t u)
  case Nil
  then show ?case by simp
next
  case (Cons a ts)
  show ?case
  proof (cases "earliest ts")
    case None
    then have "ts = []" by (cases ts) (auto split: option.splits if_splits)
    with Cons.prems None show ?thesis by simp
  next
    case (Some v)
    have v: "\<And>x. x \<in> set ts \<Longrightarrow> fireAt v \<le> fireAt x" using Cons.IH[OF Some] by simp
    show ?thesis
    proof (cases "fireAt v < fireAt a")
      case True
      then have "t = v" using Cons.prems(1) Some by simp
      then show ?thesis using Cons.prems(2) v True by auto
    next
      case False
      then have "t = a" using Cons.prems(1) Some by simp
      then show ?thesis using Cons.prems(2) v False by fastforce
    qed
  qed
qed

lemma earliest_None: "earliest ts = None \<longleftrightarrow> ts = []"
  by (cases ts) (auto split: option.splits if_splits)

lemma set_rearm:
  "x \<in> set (rearm t p ts) \<Longrightarrow> x = t\<lparr>fireAt := fireAt t + p\<rparr> \<or> x \<in> set ts"
  by (induction ts) (auto split: if_splits)

lemma filter_rearm_other:
  "\<not> Q (callback t) \<Longrightarrow>
     filter (\<lambda>u. Q (callback u)) (rearm t p ts) = filter (\<lambda>u. Q (callback u)) ts"
  by (induction ts) auto

lemma filter_rearm_same:
  "Q (callback t) \<Longrightarrow>
     filter (\<lambda>u. Q (callback u)) (rearm t p ts) = rearm t p (filter (\<lambda>u. Q (callback u)) ts)"
  by (induction ts) auto


lemma runTask_other: "\<not> isRefresh cb \<Longrightarrow> timers (runTask cfg w cb s) = timers s"
  by (cases cb) (simp_all add: runTask_def isRefresh_def renderQuote_frame updateWeatherDisplay_frame)

lemma sum_list_rearm:
  fixes f :: "timer \<Rightarrow> nat"
  shows "t \<in> set ts \<Longrightarrow>
     sum_list (map f (rearm t p ts)) + f t
       = sum_list (map f ts) + f (t\<lparr>fireAt := fireAt t + p\<rparr>)"
  by (induction ts) auto

lemma sum_list_remove1:
  fixes f :: "timer \<Rightarrow> nat"
  shows "t \<in> set ts \<Longrightarrow> sum_list (map f (remove1 t ts)) + f t = sum_list (map f ts)"
  by (induction ts) auto

lemma firingsUntil_one_shot:
  "\<not> isRefresh (callback t) \<Longrightarrow> fireAt t \<le> R \<Longrightarrow> period t = None \<Longrightarrow> firingsUntil R t = 1"
  by (simp add: firingsUntil_def)

lemma div_less_period:
  fixes a p :: int
  assumes "0 \<le> a" and "a < p"
  shows "a div p = 0"
  using assms by (rule div_pos_pos_trivial)

lemma firingsUntil_rearm:
  assumes "\<not> isRefresh (callback t)" and "fireAt t \<le> R" and "period t = Some p" and "0 < p"
  shows "firingsUntil R (t\<lparr>fireAt := fireAt t + p\<rparr>) + 1 = firingsUntil R t"
proof (cases "R < fireAt t + p")
  case True
  then have "(R - fireAt t) div p = 0" using assms(2) by (intro div_less_period) simp_all
  then show ?thesis using assms True by (simp add: firingsUntil_def)
next
  case False
  define a where "a = R - fireAt t - p"
  have a0: "0 \<le> a" using False by (simp add: a_def)
  have "p \<noteq> 0" using assms(4) by simp
  then have d: "(a + p) div p = a div p + 1" by (rule div_add_self2)
  have n: "0 \<le> a div p" using a0 assms(4) by (simp add: pos_imp_zdiv_nonneg_iff)
  have r1: "R - fireAt t = a + p" by (simp add: a_def)
  have r2: "R - (fireAt t + p) = a" by (simp add: a_def)
  have "\<not> R < fireAt t" using assms(2) by simp
  then have e1: "firingsUntil R t = nat ((a + p) div p) + 1"
    using assms(1,3) by (simp only: firingsUntil_def r1) simp
  have "fireAt (t\<lparr>fireAt := fireAt t + p\<rparr>) = fireAt t + p"
       "period (t\<lparr>fireAt := fireAt t + p\<rparr>) = Some p"
       "callback (t\<lparr>fireAt := fireAt t + p\<rparr>) = callback t"
    using assms(3) by simp_all
  then have e2: "firingsUntil R (t\<lparr>fireAt := fireAt t + p\<rparr>) = nat (a div p) + 1"
    using assms(1) False by (simp only: firingsUntil_def r2) simp
  have "nat ((a + p) div p) = nat (a div p) + 1" using d n by (simp add: nat_add_distrib)
  then show ?thesis using e1 e2 by simp
qed


lemma fireNext_cycle_cases:
  assumes inv: "cycleAt T k s"
  shows "\<exists>t. earliest (timers s) = Some t \<and>
           (if isRefresh (callback t) then cycleAt T (Suc k) (fireNext cfg w s)
            else cycleAt T k (fireNext cfg w s) \<and>
                 timers (fireNext cfg w s)
                   = (case period t of None \<Rightarrow> remove1 t (timers s)
                                     | Some p \<Rightarrow> rearm t p (timers s)))"
proof -
  let ?R = "\<lambda>u. isRefresh (callback u)"
  from inv have sound: "\<And>u. u \<in> set (timers s) \<Longrightarrow> now s \<le> fireAt u"
    and periods: "\<And>u p. u \<in> set (timers s) \<Longrightarrow> period u = Some p \<Longrightarrow> 0 < p"
    and rt: "refreshTimes s = map (\<lambda>i. T + 60000 * int i) [0..<k]"
    and pr: "filter ?R (timers s) = [refreshTimer T k]"
    by (auto simp: cycleAt_def timersSound_def pendingRefreshes_def)
  from pr have "timers s \<noteq> []" by auto
  then obtain t where e: "earliest (timers s) = Some t"
    using earliest_None[of "timers s"] by (cases "earliest (timers s)") auto
  have tin: "t \<in> set (timers s)" using earliest_member[OF e] .
  have least: "\<And>u. u \<in> set (timers s) \<Longrightarrow> fireAt t \<le> fireAt u"
    using earliest_least[OF e] by simp
  define ts' where "ts' = (case period t of None \<Rightarrow> remove1 t (timers s)
                                         | Some p \<Rightarrow> rearm t p (timers s))"
  define s1 where "s1 = s\<lparr>now := max (now s) (fireAt t), timers := ts',
                          fired := fired s @ [(fireAt t, callback t)]\<rparr>"
  have fn: "fireNext cfg w s = runTask cfg w (callback t) s1"
    by (simp add: fireNext_def e Let_def s1_def ts'_def)
  have now1: "now s1 = fireAt t" using sound[OF tin] by (simp add: s1_def)
  have sound1: "\<And>u. u \<in> set ts' \<Longrightarrow> fireAt t \<le> fireAt u \<and> (\<forall>p. period u = Some p \<longrightarrow> 0 < p)"
  proof -
    fix u assume u: "u \<in> set ts'"
    show "fireAt t \<le> fireAt u \<and> (\<forall>p. period u = Some p \<longrightarrow> 0 < p)"
    proof (cases "period t")
      case None
      then have "u \<in> set (remove1 t (timers s))" using u by (simp add: ts'_def)
      then have "u \<in> set (timers s)" using set_remove1_subset[of t "timers s"] by blast
      then show ?thesis using least periods by blast
    next
      case (Some p)
      then have "u \<in> set (rearm t p (timers s))" using u by (simp add: ts'_def)
      from set_rearm[OF this] show ?thesis
      proof
        assume "u = t\<lparr>fireAt := fireAt t + p\<rparr>"
        then show ?thesis using periods[OF tin Some] Some by simp
      next
        assume "u \<in> set (timers s)"
        then show ?thesis using least periods by blast
      qed
    qed
  qed
  from runTask_timers[of cfg w "callback t" s1] obtain extra where
    ex: "timers (runTask cfg w (callback t) s1) = timers s1 @ extra"
    and exs: "\<And>u. u \<in> set extra \<Longrightarrow> now s1 \<le> fireAt u \<and> (\<forall>p. period u = Some p \<longrightarrow> 0 < p)"
    and exr: "filter ?R extra
        = (if callback t = StartMinuteUpdates
           then [\<lparr>fireAt = now s1 + 60000, period = Some 60000, callback = UpdateQuote\<rparr>]
           else [])"
    by blast
  have tm: "timers (fireNext cfg w s) = ts' @ extra" using ex by (simp add: fn s1_def)
  have nw: "now (fireNext cfg w s) = fireAt t" by (simp add: fn runTask_frame now1)
  have fd: "fired (fireNext cfg w s) = fired s @ [(fireAt t, callback t)]"
    by (simp add: fn runTask_frame s1_def)
  have soundF: "timersSound (fireNext cfg w s)"
    unfolding timersSound_def tm nw using sound1 exs now1 by auto
  have rtF: "refreshTimes (fireNext cfg w s)
      = refreshTimes s @ (if isRefresh (callback t) then [fireAt t] else [])"
    by (simp add: refreshTimes_def fd)
  have prF: "pendingRefreshes (fireNext cfg w s) = filter ?R ts' @ filter ?R extra"
    by (simp add: pendingRefreshes_def tm)
  show ?thesis
  proof (cases "isRefresh (callback t)")
    case False
    then have nS: "callback t \<noteq> StartMinuteUpdates" by (auto simp: isRefresh_def)
    have "t \<notin> set (filter ?R (timers s))" using False by simp
    then have "remove1 t (filter ?R (timers s)) = filter ?R (timers s)"
      by (rule remove1_idem)
    then have "filter ?R ts' = filter ?R (timers s)"
      using False by (cases "period t") (simp_all add: ts'_def filter_remove1 filter_rearm_other)
    then have "pendingRefreshes (fireNext cfg w s) = [refreshTimer T k]"
      using prF exr nS pr by simp
    moreover have "refreshTimes (fireNext cfg w s) = map (\<lambda>i. T + 60000 * int i) [0..<k]"
      using rtF False rt by simp
    ultimately have "cycleAt T k (fireNext cfg w s)" using soundF by (simp add: cycleAt_def)
    moreover have "timers (fireNext cfg w s) = ts'"
      using False by (simp add: fn runTask_other s1_def)
    ultimately show ?thesis using e False by (simp add: ts'_def)
  next
    case True
    then have "t \<in> set (filter ?R (timers s))" using tin by simp
    then have teq: "t = refreshTimer T k" by (simp add: pr)
    have one: "filter ?R (timers s) = [t]" using pr teq by simp
    show ?thesis
    proof (cases "k = 0")
      case True
      then have t0: "fireAt t = T" "period t = None" "callback t = StartMinuteUpdates"
        using teq by (simp_all add: refreshTimer_def)
      have "filter ?R ts' = remove1 t (filter ?R (timers s))"
        using t0 by (simp add: ts'_def filter_remove1)
      then have "filter ?R ts' = []" using one by simp
      then have "pendingRefreshes (fireNext cfg w s) = [refreshTimer T (Suc k)]"
        using prF exr t0 now1 True by (simp add: refreshTimer_def)
      moreover have "refreshTimes (fireNext cfg w s) = map (\<lambda>i. T + 60000 * int i) [0..<Suc k]"
        using rtF \<open>isRefresh (callback t)\<close> rt t0 True by simp
      ultimately have "cycleAt T (Suc k) (fireNext cfg w s)" using soundF by (simp add: cycleAt_def)
      then show ?thesis using e \<open>isRefresh (callback t)\<close> by simp
    next
      case False
      then have t0: "fireAt t = T + 60000 * int k" "period t = Some 60000" "callback t = UpdateQuote"
        using teq by (simp_all add: refreshTimer_def)
      have "filter ?R ts' = rearm t 60000 (filter ?R (timers s))"
        using t0 \<open>isRefresh (callback t)\<close> by (simp add: ts'_def filter_rearm_same)
      then have "filter ?R ts' = [t\<lparr>fireAt := fireAt t + 60000\<rparr>]" using one by simp
      moreover have "t\<lparr>fireAt := fireAt t + 60000\<rparr> = refreshTimer T (Suc k)"
        using teq False by (simp add: refreshTimer_def)
      ultimately have "pendingRefreshes (fireNext cfg w s) = [refreshTimer T (Suc k)]"
        using prF exr t0 by simp
      moreover have "refreshTimes (fireNext cfg w s) = map (\<lambda>i. T + 60000 * int i) [0..<Suc k]"
        using rtF \<open>isRefresh (callback t)\<close> rt t0 by simp
      ultimately have "cycleAt T (Suc k) (fireNext cfg w s)" using soundF by (simp add: cycleAt_def)
      then show ?thesis using e \<open>isRefresh (callback t)\<close> by simp
    qed
  qed
qed


lemma fireNext_cycle:
  assumes "cycleAt T k s"
  shows "cycleAt T k (fireNext cfg w s) \<or> cycleAt T (Suc k) (fireNext cfg w s)"
  using fireNext_cycle_cases[OF assms, of cfg w] by (auto split: if_splits)

lemma refresh_starts:
  assumes "cycleAt T k s"
  shows "\<exists>n. cycleAt T (Suc k) ((fireNext cfg w ^^ n) s)"
  using assms
proof (induction "sum_list (map (firingsUntil (fireAt (refreshTimer T k))) (timers s))"
         arbitrary: s rule: less_induct)
  case less
  let ?R = "fireAt (refreshTimer T k)"
  let ?mu = "\<lambda>s. sum_list (map (firingsUntil ?R) (timers s))"
  from fireNext_cycle_cases[OF less.prems, of cfg w] obtain t where
    e: "earliest (timers s) = Some t"
    and c: "if isRefresh (callback t) then cycleAt T (Suc k) (fireNext cfg w s)
            else cycleAt T k (fireNext cfg w s) \<and>
                 timers (fireNext cfg w s)
                   = (case period t of None \<Rightarrow> remove1 t (timers s)
                                     | Some p \<Rightarrow> rearm t p (timers s))"
    by blast
  show ?case
  proof (cases "isRefresh (callback t)")
    case True
    then have "cycleAt T (Suc k) ((fireNext cfg w ^^ 1) s)" using c by simp
    then show ?thesis by blast
  next
    case False
    then have c': "cycleAt T k (fireNext cfg w s)"
      and tm: "timers (fireNext cfg w s)
                 = (case period t of None \<Rightarrow> remove1 t (timers s)
                                   | Some p \<Rightarrow> rearm t p (timers s))"
      using c by simp_all
    have tin: "t \<in> set (timers s)" using earliest_member[OF e] .
    have "refreshTimer T k \<in> set (pendingRefreshes s)"
      using less.prems by (simp add: cycleAt_def)
    then have "refreshTimer T k \<in> set (timers s)" by (simp add: pendingRefreshes_def)
    then have le: "fireAt t \<le> ?R" using earliest_least[OF e] by simp
    have pos: "\<And>p. period t = Some p \<Longrightarrow> 0 < p"
      using less.prems tin by (auto simp: cycleAt_def timersSound_def)
    have dec: "?mu (fireNext cfg w s) + 1 = ?mu s"
    proof (cases "period t")
      case None
      then show ?thesis
        using sum_list_remove1[OF tin, of "firingsUntil ?R"]
          firingsUntil_one_shot[OF False le None] tm by simp
    next
      case (Some p)
      then show ?thesis
        using sum_list_rearm[OF tin, of "firingsUntil ?R" p]
          firingsUntil_rearm[OF False le Some pos[OF Some]] tm by simp
    qed
    then have "?mu (fireNext cfg w s) < ?mu s" by simp
    from less.hyps[OF this c'] obtain n where
      "cycleAt T (Suc k) ((fireNext cfg w ^^ n) (fireNext cfg w s))" by blast
    then have "cycleAt T (Suc k) ((fireNext cfg w ^^ Suc n) s)" by (simp add: funpow_swap1)
    then show ?thesis by blast
  qed
qed

lemma every_refresh_starts:
  assumes "cycleAt T 0 s"
  shows "\<exists>n. cycleAt T k ((fireNext cfg w ^^ n) s)"
proof (induction k)
  case 0
  have "cycleAt T 0 ((fireNext cfg w ^^ 0) s)" using assms by simp
  then show ?case by blast
next
  case (Suc k)
  then obtain n where "cycleAt T k ((fireNext cfg w ^^ n) s)" by blast
  from refresh_starts[OF this, of cfg w] obtain m where
    "cycleAt T (Suc k) ((fireNext cfg w ^^ m) ((fireNext cfg w ^^ n) s))" by blast
  then have "cycleAt T (Suc k) ((fireNext cfg w ^^ (m + n)) s)" by (simp add: funpow_add)
  then show ?case by blast
qed

lemma setup_starts_cycle:
  assumes "fst (getCurrentTime cfg w s) = Inr t" and "seconds t < 60"
    and "timersSound s" and "pendingRefreshes s = []" and "refreshTimes s = []"
  shows "timers (setupPreciseMinuteTiming cfg w s)
           = timers s @ [\<lparr>fireAt = now s + (60 - int (seconds t)) * 1000, period = None,
                           callback = StartMinuteUpdates\<rparr>]"
    and "cycleAt (now s + (60 - int (seconds t)) * 1000) 0 (setupPreciseMinuteTiming cfg w s)"
proof -
  let ?T = "now s + (60 - int (seconds t)) * 1000"
  let ?s0 = "setupPreciseMinuteTiming cfg w s"
  obtain s' where g: "getCurrentTime cfg w s = (Inr t, s')"
    using assms(1) by (cases "getCurrentTime cfg w s") simp
  have f: "timers s' = timers s" "fired s' = fired s" "now s' = now s"
    using getCurrentTime_frame[of cfg w s] g by simp_all
  have "0 \<le> 60 - int (seconds t)" using assms(2) by simp
  then have nn: "0 \<le> (60 - int (seconds t)) * 1000" by simp
  show tm: "timers ?s0 = timers s @ [\<lparr>fireAt = ?T, period = None, callback = StartMinuteUpdates\<rparr>]"
    using assms(2) by (simp add: setupPreciseMinuteTiming_def g Let_def setTimeout_def f max_def)
  have nw: "now ?s0 = now s" by (simp add: setupPreciseMinuteTiming_def g Let_def setTimeout_def f)
  have fd: "fired ?s0 = fired s" by (simp add: setupPreciseMinuteTiming_def g Let_def setTimeout_def f)
  have "now s \<le> ?T" using nn by simp
  then have "timersSound ?s0" using assms(3) unfolding timersSound_def tm nw by auto
  moreover have "refreshTimes ?s0 = []" using assms(5) by (simp add: refreshTimes_def fd)
  moreover have "pendingRefreshes ?s0 = [refreshTimer ?T 0]"
    using assms(4) by (simp add: pendingRefreshes_def tm refreshTimer_def isRefresh_def)
  ultimately show "cycleAt ?T 0 ?s0" by (simp add: cycleAt_def)
qed

section \<open>Claims about the refresh cycle\<close>

text \<open>
  C6. When the time resolves, \<open>setupPreciseMinuteTiming\<close> sets exactly one timer: a
  one-shot timer with the delay \<open>(60 - seconds) * 1000\<close> ms, where \<open>seconds\<close> is the
  seconds field of the resolved time. Started in a state with no refresh pending and none
  done, and however many timers fire afterwards, the refreshes that the timers have started
  are the first \<open>k\<close> of a cycle that begins at the end of that delay and has the period
  60000 ms, and the one timer pending for the next refresh is the one-shot timer before the
  first refresh and the repeating timer of period 60000 ms ever after: the alignment to the
  minute is done once. Every refresh of the cycle does start: for each \<open>k\<close> the state
  with exactly the first \<open>k\<close> refreshes started is reached.
\<close>

theorem setupPreciseMinuteTiming_cycle:
  assumes "fst (getCurrentTime cfg w s) = Inr t" and "seconds t < 60"
    and "timersSound s" and "pendingRefreshes s = []" and "refreshTimes s = []"
  shows "timers (setupPreciseMinuteTiming cfg w s)
           = timers s @ [\<lparr>fireAt = now s + (60 - int (seconds t)) * 1000, period = None,
                           callback = StartMinuteUpdates\<rparr>] \<and>
         (\<forall>n. \<exists>k. cycleAt (now s + (60 - int (seconds t)) * 1000) k
                   ((fireNext cfg w ^^ n) (setupPreciseMinuteTiming cfg w s))) \<and>
         (\<forall>k. \<exists>n. cycleAt (now s + (60 - int (seconds t)) * 1000) k
                   ((fireNext cfg w ^^ n) (setupPreciseMinuteTiming cfg w s)))"
proof -
  let ?T = "now s + (60 - int (seconds t)) * 1000"
  let ?s0 = "setupPreciseMinuteTiming cfg w s"
  note tm = setup_starts_cycle(1)[OF assms]
  note c0 = setup_starts_cycle(2)[OF assms]
  have "\<exists>k. cycleAt ?T k ((fireNext cfg w ^^ n) ?s0)" for n
  proof (induction n)
    case 0
    then show ?case using c0 by auto
  next
    case (Suc n)
    then obtain k where "cycleAt ?T k ((fireNext cfg w ^^ n) ?s0)" by blast
    from fireNext_cycle[OF this, of cfg w] show ?case by auto
  qed
  moreover have "\<exists>n. cycleAt ?T k ((fireNext cfg w ^^ n) ?s0)" for k
    using every_refresh_starts[OF c0, of k cfg w] .
  ultimately show ?thesis using tm by blast
qed

text \<open>
  C6, witness: the default configuration at 09:41:30, 5000 ms after the page was opened: the
  first refresh is due at 35000 ms.
\<close>

theorem setupPreciseMinuteTiming_cycle_witness:
  "fst (getCurrentTime defaultConfig
          (steadyWorld \<lparr>hours = 9, minutes = 41, seconds = 30\<rparr> WebTimeRejected DatasetFetchRejected)
          (startup 5000))
     = Inr \<lparr>hours = 9, minutes = 41, seconds = 30\<rparr> \<and>
   timersSound (startup 5000) \<and> pendingRefreshes (startup 5000) = [] \<and>
   refreshTimes (startup 5000) = [] \<and>
   timers (setupPreciseMinuteTiming defaultConfig
             (steadyWorld \<lparr>hours = 9, minutes = 41, seconds = 30\<rparr> WebTimeRejected DatasetFetchRejected)
             (startup 5000))
     = [\<lparr>fireAt = 35000, period = None, callback = StartMinuteUpdates\<rparr>] \<and>
   (\<forall>n. \<exists>k. cycleAt 35000 k
      ((fireNext defaultConfig
          (steadyWorld \<lparr>hours = 9, minutes = 41, seconds = 30\<rparr> WebTimeRejected DatasetFetchRejected) ^^ n)
         (setupPreciseMinuteTiming defaultConfig
            (steadyWorld \<lparr>hours = 9, minutes = 41, seconds = 30\<rparr> WebTimeRejected DatasetFetchRejected)
            (startup 5000)))) \<and>
   (\<forall>k. \<exists>n. cycleAt 35000 k
      ((fireNext defaultConfig
          (steadyWorld \<lparr>hours = 9, minutes = 41, seconds = 30\<rparr> WebTimeRejected DatasetFetchRejected) ^^ n)
         (setupPreciseMinuteTiming defaultConfig
            (steadyWorld \<lparr>hours = 9, minutes = 41, seconds = 30\<rparr> WebTimeRejected DatasetFetchRejected)
            (startup 5000))))"
proof -
  let ?w = "steadyWorld \<lparr>hours = 9, minutes = 41, seconds = 30\<rparr> WebTimeRejected DatasetFetchRejected"
  let ?t = "\<lparr>hours = 9, minutes = 41, seconds = 30\<rparr>"
  have g: "fst (getCurrentTime defaultConfig ?w (startup 5000)) = Inr ?t"
    by (simp add: getCurrentTime_def defaultConfig_def steadyWorld_def startup_def)
  have sec: "seconds ?t < 60" by simp
  have snd: "timersSound (startup 5000)" by (simp add: timersSound_def startup_def)
  have pr: "pendingRefreshes (startup 5000) = []" by (simp add: pendingRefreshes_def startup_def)
  have rt: "refreshTimes (startup 5000) = []" by (simp add: refreshTimes_def startup_def)
  from setupPreciseMinuteTiming_cycle[OF g sec snd pr rt] g snd pr rt
  show ?thesis by (simp add: startup_def)
qed


text \<open>
  The state in which \<open>init\<close> calls \<open>setupPreciseMinuteTiming\<close> is such a state: when
  the dataset loads, the time comes from the system clock and the two configured intervals
  are positive, \<open>init\<close> ends with the cycle set up, less than a minute ahead.
\<close>

lemma setInterval_keeps_cycle:
  assumes "cycleAt T k s" and "\<not> isRefresh cb" and "0 < d"
  shows "cycleAt T k (setInterval cb d s)"
  using assms
  by (auto simp add: cycleAt_def timersSound_def refreshTimes_def pendingRefreshes_def
        setInterval_def)

lemma updateQuote_system_time:
  assumes "\<not> useWebTime (timeSync cfg)"
  shows "fst (updateQuote cfg w s) = Inr ()"
proof -
  obtain s' where g: "getCurrentTime cfg w s = (Inr (systemClock w (clockReads s)), s')"
    using assms by (simp add: getCurrentTime_def Let_def)
  then show ?thesis
    by (simp add: updateQuote_def findQuoteForCurrentTime_def Let_def)
qed

lemma init_starts_cycle:
  assumes ok: "fst (loadQuotes w (startup t0)) = Inr ()"
    and sys: "\<not> useWebTime (timeSync cfg)"
    and ka: "0 < wakeLockFallbackInterval cfg" and we: "0 < weatherUpdateInterval cfg"
    and sec: "\<And>k. seconds (systemClock w k) < 60"
  shows "\<exists>k. cycleAt (t0 + (60 - int (seconds (systemClock w k))) * 1000) 0
               (init cfg w (startup t0))"
proof -
  obtain s1 where l: "loadQuotes w (startup t0) = (Inr (), s1)"
    using ok by (cases "loadQuotes w (startup t0)") simp
  have s1: "timers s1 = []" "fired s1 = []" "now s1 = t0"
    using l by (auto simp add: loadQuotes_def startup_def
                  split: dataset_response.splits option.splits if_splits)
  define s4 where
    "s4 = updateWeatherDisplay cfg w (updateDateTimeDisplay cfg w (setupFallbackKeepAwake cfg s1))"
  let ?ka = "\<lparr>fireAt = t0 + wakeLockFallbackInterval cfg,
               period = Some (wakeLockFallbackInterval cfg), callback = KeepAwake\<rparr>"
  have s4: "timers s4 = [?ka]" "fired s4 = []" "now s4 = t0"
    using ka by (simp_all add: s4_def updateWeatherDisplay_frame updateDateTimeDisplay_frame
                   setupFallbackKeepAwake_def setInterval_def s1 max_def)
  obtain s5 where u: "updateQuote cfg w s4 = (Inr (), s5)"
    using updateQuote_system_time[OF sys, of w s4] by (cases "updateQuote cfg w s4") simp
  from updateQuote_frame[of cfg w s4] u obtain extra where
    s5: "fired s5 = []" "now s5 = t0" "timers s5 = [?ka] @ extra"
    and ex: "\<forall>u \<in> set extra. t0 \<le> fireAt u \<and> period u = None \<and> \<not> isRefresh (callback u)"
    using s4 by auto
  have snd5: "timersSound s5" using ex ka by (auto simp add: timersSound_def s5)
  have "filter (\<lambda>u. isRefresh (callback u)) extra = []" using ex by (simp add: filter_empty_conv)
  then have pr5: "pendingRefreshes s5 = []" by (simp add: pendingRefreshes_def s5 isRefresh_def)
  have rt5: "refreshTimes s5 = []" by (simp add: refreshTimes_def s5)
  define k where "k = clockReads s5"
  have g: "fst (getCurrentTime cfg w s5) = Inr (systemClock w k)"
    using sys by (simp add: getCurrentTime_def Let_def k_def)
  from setup_starts_cycle(2)[OF g sec snd5 pr5 rt5]
  have "cycleAt (t0 + (60 - int (seconds (systemClock w k))) * 1000) 0
          (setupPreciseMinuteTiming cfg w s5)" by (simp add: s5)
  from setInterval_keeps_cycle[OF this _ we, of UpdateWeatherDisplay]
  have "cycleAt (t0 + (60 - int (seconds (systemClock w k))) * 1000) 0
          (setInterval UpdateWeatherDisplay (weatherUpdateInterval cfg)
             (setupPreciseMinuteTiming cfg w s5))" by (simp add: isRefresh_def)
  moreover have "init cfg w (startup t0)
      = setInterval UpdateWeatherDisplay (weatherUpdateInterval cfg)
             (setupPreciseMinuteTiming cfg w s5)"
    using l u by (simp add: init_def Let_def s4_def)
  ultimately show ?thesis by auto
qed


lemma startup_refresh_cycle:
  assumes "fst (loadQuotes w (startup t0)) = Inr ()"
    and "\<not> useWebTime (timeSync cfg)"
    and "0 < wakeLockFallbackInterval cfg" and "0 < weatherUpdateInterval cfg"
    and "\<And>k. seconds (systemClock w k) < 60"
  shows "\<exists>T. t0 < T \<and> T \<le> t0 + 60000 \<and>
           (\<forall>n. \<exists>k. cycleAt T k ((fireNext cfg w ^^ n) (init cfg w (startup t0)))) \<and>
           (\<forall>k. \<exists>n. cycleAt T k ((fireNext cfg w ^^ n) (init cfg w (startup t0))))"
proof -
  from init_starts_cycle[OF assms] obtain j where
    c0: "cycleAt (t0 + (60 - int (seconds (systemClock w j))) * 1000) 0
           (init cfg w (startup t0))" by blast
  let ?T = "t0 + (60 - int (seconds (systemClock w j))) * 1000"
  have "int (seconds (systemClock w j)) < 60" using assms(5)[of j] by simp
  then have range: "t0 < ?T \<and> ?T \<le> t0 + 60000" by simp
  have "\<exists>k. cycleAt ?T k ((fireNext cfg w ^^ n) (init cfg w (startup t0)))" for n
  proof (induction n)
    case 0
    then show ?case using c0 by auto
  next
    case (Suc n)
    then obtain k where "cycleAt ?T k ((fireNext cfg w ^^ n) (init cfg w (startup t0)))"
      by blast
    from fireNext_cycle[OF this, of cfg w] show ?case by auto
  qed
  moreover have "\<exists>n. cycleAt ?T k ((fireNext cfg w ^^ n) (init cfg w (startup t0)))" for k
    using every_refresh_starts[OF c0, of k cfg w] .
  ultimately show ?thesis using range by blast
qed


section \<open>Claims about the startup\<close>

lemma fireNext_no_refresh:
  assumes "pendingRefreshes s = []"
  shows "pendingRefreshes (fireNext cfg w s) = [] \<and> refreshTimes (fireNext cfg w s) = refreshTimes s"
proof (cases "earliest (timers s)")
  case None
  then show ?thesis using assms by (simp add: fireNext_def)
next
  case (Some t)
  let ?R = "\<lambda>u. isRefresh (callback u)"
  have pr: "filter ?R (timers s) = []" using assms by (simp add: pendingRefreshes_def)
  have tin: "t \<in> set (timers s)" using earliest_member[OF Some] .
  then have nr: "\<not> isRefresh (callback t)" using pr by (auto simp: filter_empty_conv)
  then have nS: "callback t \<noteq> StartMinuteUpdates" by (auto simp: isRefresh_def)
  define ts' where "ts' = (case period t of None \<Rightarrow> remove1 t (timers s)
                                         | Some p \<Rightarrow> rearm t p (timers s))"
  define s1 where "s1 = s\<lparr>now := max (now s) (fireAt t), timers := ts',
                          fired := fired s @ [(fireAt t, callback t)]\<rparr>"
  have fn: "fireNext cfg w s = runTask cfg w (callback t) s1"
    by (simp add: fireNext_def Some Let_def s1_def ts'_def)
  from runTask_timers[of cfg w "callback t" s1] obtain extra where
    ex: "timers (runTask cfg w (callback t) s1) = timers s1 @ extra"
    and exr: "filter ?R extra = []"
    using nS by auto
  have "filter ?R ts' = []"
    using nr pr by (cases "period t") (simp_all add: ts'_def filter_remove1 filter_rearm_other)
  then have "pendingRefreshes (fireNext cfg w s) = []"
    using ex exr by (simp add: pendingRefreshes_def fn s1_def)
  moreover have "refreshTimes (fireNext cfg w s) = refreshTimes s"
    using nr by (simp add: refreshTimes_def fn runTask_frame s1_def)
  ultimately show ?thesis by simp
qed

lemma no_refresh_ever:
  assumes "pendingRefreshes s = []"
  shows "pendingRefreshes ((fireNext cfg w ^^ n) s) = [] \<and>
         refreshTimes ((fireNext cfg w ^^ n) s) = refreshTimes s"
proof (induction n)
  case 0
  then show ?case using assms by simp
next
  case (Suc n)
  then show ?case using fireNext_no_refresh[of "(fireNext cfg w ^^ n) s" cfg w] by simp
qed

lemma init_dataset_failure:
  assumes "fst (loadQuotes w s) = Inl e"
  shows "init cfg w s = displayError w (utf16 ''Failed to load quotes. Please refresh the page.'') s"
proof -
  have "loadQuotes w s = (Inl e, s)"
    using assms
    by (cases "datasetResponse w")
       (auto simp add: loadQuotes_def split: option.splits if_splits)
  then show ?thesis by (simp add: init_def)
qed


lemma dataset_failure_is_fatal:
  assumes "fst (loadQuotes w s) = Inl e" and "present w QuoteContainer"
    and "pendingRefreshes s = []"
  shows "errorBanner (init cfg w s) = Some (utf16 ''Failed to load quotes. Please refresh the page.'')"
    and "timers (init cfg w s) = timers s"
    and "refreshTimes ((fireNext cfg w ^^ n) (init cfg w s)) = refreshTimes s"
proof -
  have i: "init cfg w s = s\<lparr>errorBanner := Some (utf16 ''Failed to load quotes. Please refresh the page.'')\<rparr>"
    using init_dataset_failure[OF assms(1), of cfg] assms(2) by (simp add: displayError_def)
  show "errorBanner (init cfg w s) = Some (utf16 ''Failed to load quotes. Please refresh the page.'')"
    by (simp add: i)
  show "timers (init cfg w s) = timers s" by (simp add: i)
  have "pendingRefreshes (init cfg w s) = []" using assms(3) by (simp add: i pendingRefreshes_def)
  from no_refresh_ever[OF this, where cfg = cfg and w = w and n = n]
  show "refreshTimes ((fireNext cfg w ^^ n) (init cfg w s)) = refreshTimes s"
    by (simp add: i refreshTimes_def)
qed

text \<open>
  C7. First, a dataset request answered with the status 404: \<open>init\<close> shows the error
  banner, sets no timer, and no refresh ever starts. Second, the dataset loads, web time is
  enabled without fallback and every request to the web time API fails: the datetime field
  shows its own message, but the error that the first \<open>updateQuote\<close> throws reaches the
  \<open>catch\<close> of \<open>init\<close> as well, which shows the banner for a failed load of the quotes
  and leaves \<open>setupPreciseMinuteTiming\<close> out: no refresh is pending and none ever starts.
  Third, the same configuration, and the web time API answers three requests and fails from
  the fourth on, the one of \<open>setupPreciseMinuteTiming\<close>: the page shows the time and no
  banner, and again no refresh is pending and none ever starts.
\<close>

theorem init_aborts_on_time_failure:
  "(let cfg = defaultConfig;
        w = steadyWorld \<lparr>hours = 9, minutes = 41, seconds = 30\<rparr> WebTimeRejected (DatasetResponse 404 None);
        s = init cfg w (startup 0)
    in errorBanner s = Some (utf16 ''Failed to load quotes. Please refresh the page.'') \<and>
       timers s = [] \<and>
       (\<forall>n. refreshTimes ((fireNext cfg w ^^ n) s) = [])) \<and>
   (let cfg = webTimeConfig 30 False;
        q = \<lparr>time = utf16 ''09:41'', quote = utf16 ''It was 9:41.'', timeString = utf16 ''9:41'',
              title = utf16 ''C'', author = utf16 ''D''\<rparr>;
        w = steadyWorld \<lparr>hours = 9, minutes = 41, seconds = 30\<rparr> WebTimeRejected
              (DatasetResponse 200 (Some [q]));
        s = init cfg w (startup 0)
    in quotes s = [q] \<and>
       datetimeText s = DatetimeMessage (utf16 ''Time unavailable'') \<and>
       errorBanner s = Some (utf16 ''Failed to load quotes. Please refresh the page.'') \<and>
       pendingRefreshes s = [] \<and>
       (\<forall>n. refreshTimes ((fireNext cfg w ^^ n) s) = [])) \<and>
   (let cfg = webTimeConfig 30 False;
        t = \<lparr>hours = 9, minutes = 41, seconds = 30\<rparr>;
        q = \<lparr>time = utf16 ''09:41'', quote = utf16 ''It was 9:41.'', timeString = utf16 ''9:41'',
              title = utf16 ''C'', author = utf16 ''D''\<rparr>;
        w = (steadyWorld t (WebTimeAnswer 200 (Some t)) (DatasetResponse 200 (Some [q])))
              \<lparr>webTimeResponse := (\<lambda>n. if n < 3 then WebTimeAnswer 200 (Some t) else WebTimeRejected)\<rparr>;
        s = init cfg w (startup 0)
    in quotes s = [q] \<and>
       datetimeText s = DateAndTime (utf16 ''09:41'') \<and>
       errorBanner s = None \<and>
       pendingRefreshes s = [] \<and>
       (\<forall>n. refreshTimes ((fireNext cfg w ^^ n) s) = []))"
proof -
  let ?w1 = "steadyWorld \<lparr>hours = 9, minutes = 41, seconds = 30\<rparr> WebTimeRejected (DatasetResponse 404 None)"
  let ?s1 = "init defaultConfig ?w1 (startup 0)"
  let ?q = "\<lparr>time = utf16 ''09:41'', quote = utf16 ''It was 9:41.'', timeString = utf16 ''9:41'',
              title = utf16 ''C'', author = utf16 ''D''\<rparr>"
  let ?t = "\<lparr>hours = 9, minutes = 41, seconds = 30\<rparr>"
  let ?w2 = "steadyWorld ?t WebTimeRejected (DatasetResponse 200 (Some [?q]))"
  let ?c2 = "webTimeConfig 30 False"
  let ?s2 = "init ?c2 ?w2 (startup 0)"
  let ?w3 = "(steadyWorld ?t (WebTimeAnswer 200 (Some ?t)) (DatasetResponse 200 (Some [?q])))
              \<lparr>webTimeResponse := (\<lambda>n. if n < 3 then WebTimeAnswer 200 (Some ?t) else WebTimeRejected)\<rparr>"
  let ?s3 = "init ?c2 ?w3 (startup 0)"
  have s1: "?s1 = (startup 0)\<lparr>errorBanner := Some (utf16 ''Failed to load quotes. Please refresh the page.'')\<rparr>"
    by (simp add: init_def loadQuotes_def displayError_def steadyWorld_def)
  then have a: "errorBanner ?s1 = Some (utf16 ''Failed to load quotes. Please refresh the page.'')"
    "timers ?s1 = []" by (simp_all add: startup_def)
  have "pendingRefreshes ?s1 = []" "refreshTimes ?s1 = []"
    using s1 by (simp_all add: pendingRefreshes_def refreshTimes_def startup_def)
  then have b: "\<forall>n. refreshTimes ((fireNext defaultConfig ?w1 ^^ n) ?s1) = []"
    using no_refresh_ever[where s = ?s1 and cfg = defaultConfig and w = ?w1] by simp
  have s2: "quotes ?s2 = [?q] \<and> datetimeText ?s2 = DatetimeMessage (utf16 ''Time unavailable'') \<and>
       errorBanner ?s2 = Some (utf16 ''Failed to load quotes. Please refresh the page.'') \<and>
       pendingRefreshes ?s2 = [] \<and> refreshTimes ?s2 = []"
    by (simp add: init_def loadQuotes_def displayError_def steadyWorld_def webTimeConfig_def
          defaultConfig_def startup_def setupFallbackKeepAwake_def setInterval_def
          updateDateTimeDisplay_def getCurrentTime_def updateWeatherDisplay_def
          updateQuote_def findQuoteForCurrentTime_def pendingRefreshes_def refreshTimes_def
          isRefresh_def Let_def)
  then have c: "\<forall>n. refreshTimes ((fireNext ?c2 ?w2 ^^ n) ?s2) = []"
    using no_refresh_ever[where s = ?s2 and cfg = ?c2 and w = ?w2] by simp
  have k: "formatTime ?t = utf16 ''09:41''" by code_simp
  have s3: "quotes ?s3 = [?q] \<and> datetimeText ?s3 = DateAndTime (utf16 ''09:41'') \<and>
       errorBanner ?s3 = None \<and> pendingRefreshes ?s3 = [] \<and> refreshTimes ?s3 = []"
    by (simp add: init_def loadQuotes_def displayError_def steadyWorld_def webTimeConfig_def
          defaultConfig_def startup_def setupFallbackKeepAwake_def setInterval_def
          setTimeout_def setupPreciseMinuteTiming_def discrepancyMinutes_def
          updateDateTimeDisplay_def getCurrentTime_def updateWeatherDisplay_def
          updateQuote_def findQuoteForCurrentTime_def pendingRefreshes_def refreshTimes_def
          isRefresh_def Let_def k)
  then have d: "\<forall>n. refreshTimes ((fireNext ?c2 ?w3 ^^ n) ?s3) = []"
    using no_refresh_ever[where s = ?s3 and cfg = ?c2 and w = ?w3] by simp
  from a b s2 c s3 d show ?thesis by (simp add: Let_def)
qed


section \<open>Claims about the highlighting\<close>

lemma length_strong: "length (strong m) = length m + 17"
  by (simp add: strong_def length_utf16)

lemma length_replaceAllCI:
  "length (replaceAllCI js needle hay) = length hay + 17 * countMatchesCI js needle hay"
proof (induction js needle hay rule: replaceAllCI.induct)
  case (1 js needle)
  then show ?case by (simp add: length_strong)
next
  case (2 js needle c cs)
  show ?case
  proof (cases "needle = []")
    case True
    then show ?thesis using 2(1) by (simp add: length_strong)
  next
    case False
    show ?thesis
    proof (cases "prefix (map (canonicalize js) needle) (map (canonicalize js) (c # cs))")
      case True
      then have "length needle \<le> length (c # cs)"
        using prefix_length_le[of "map (canonicalize js) needle" "map (canonicalize js) (c # cs)"]
        by simp
      then show ?thesis using 2(2)[OF False True] False True
        by (simp add: length_strong)
    next
      case no: False
      then show ?thesis using 2(3)[OF False no] False by simp
    qed
  qed
qed

lemma highlight_fed_back_accumulates:
  "highlightTimeString latin1Engine
     (highlightTimeString latin1Engine (utf16 ''at 9:41'') (utf16 ''9:41'')) (utf16 ''9:41'')
     = utf16 ''at <strong><strong>9:41</strong></strong>''"
  by code_simp

text \<open>
  C8. Highlighting the same raw text again gives the same result as highlighting it once,
  whatever was produced before; the markup added is 17 characters for each match of the raw
  text; and showing the same quote twice leaves the same markup in the quote element as
  showing it once, the highlighted, fitted raw text between two quotation marks.
\<close>

theorem highlightTimeString_rerun:
  "((\<lambda>previous :: jsstring. highlightTimeString js quoteText token) ^^ Suc n) previous
     = highlightTimeString js quoteText token \<and>
   length (highlightTimeString js quoteText token)
     = length quoteText + 17 * countMatchesCI js token quoteText \<and>
   quoteHTML (renderQuote cfg w (Some q) (renderQuote cfg w (Some q) s))
     = quoteHTML (renderQuote cfg w (Some q) s) \<and>
   quoteHTML (renderQuote cfg w (Some q) s)
     = of_char (CHR 0x22)
       # highlightTimeString (runtime w)
           (smartTruncateQuote (runtime w) cfg (quote q) (timeString q)) (timeString q)
       @ [of_char (CHR 0x22)]"
  by (simp add: highlightTimeString_def length_replaceAllCI renderQuote_def Let_def)


end
